theory Spec2Isabelle
  imports Main "HOL-Library.Word" "HOL-Library.List_Lexorder"
begin

section \<open>Bytes, errors and struct packing\<close>

text \<open>
  Python \<open>bytes\<close> are lists of 8-bit words. With the lexicographic order on lists a
  byte string is smaller than each of its proper extensions, which is the bytewise order
  the key-value store iterates in.
\<close>

type_synonym byte = "8 word"
type_synonym bytes = "byte list"

text \<open>The messages of \<open>DB.DBError\<close>, one constructor per raise site of \<open>server/db.py\<close>.\<close>

datatype db_reason =
    FailedReadingState
  | UnhandledVersion
  | GenesisMismatch
  | FlushCountCorrupt
  | HeadersNotOnDisk
  | OneTableOnly

datatype error =
    DBError db_reason
  | MissingUTXOError
  | AssertionError
  | KeyError
  | TypeError
  | IndexError
  | ValueError
  | StructError
  | OSError
  | FileNotFoundError
  | SyntaxError

text \<open>\<open>xs[-n:]\<close> for a positive \<open>n\<close>: the last \<open>n\<close> items, or all of \<open>xs\<close> when it is shorter.\<close>

definition last_n :: "nat \<Rightarrow> 'a list \<Rightarrow> 'a list" where
  "last_n n xs = drop (length xs - n) xs"

text \<open>Big-endian and little-endian readings of a byte string.\<close>

fun be_int :: "bytes \<Rightarrow> int" where
  "be_int [] = 0"
| "be_int (b # bs) = uint b * 256 ^ length bs + be_int bs"

fun le_int :: "bytes \<Rightarrow> int" where
  "le_int [] = 0"
| "le_int (b # bs) = uint b + 256 * le_int bs"

text \<open>
  \<open>struct.unpack\<close> with a one-field format of \<open>n\<close> bytes (\<open>'>H'\<close>, \<open>'>I'\<close>, \<open>'<I'\<close>,
  \<open>'<Q'\<close>): \<open>struct.error\<close> unless the buffer has exactly \<open>n\<close> bytes.
\<close>

definition unpack_be :: "nat \<Rightarrow> bytes \<Rightarrow> error + int" where
  "unpack_be n bs = (if length bs = n then Inr (be_int bs) else Inl StructError)"

definition unpack_le :: "nat \<Rightarrow> bytes \<Rightarrow> error + int" where
  "unpack_le n bs = (if length bs = n then Inr (le_int bs) else Inl StructError)"

fun le_bytes :: "nat \<Rightarrow> int \<Rightarrow> bytes" where
  "le_bytes 0 v = []"
| "le_bytes (Suc n) v = word_of_int (v mod 256) # le_bytes n (v div 256)"

definition be_bytes :: "nat \<Rightarrow> int \<Rightarrow> bytes" where
  "be_bytes n v = rev (le_bytes n v)"

text \<open>\<open>pack('<H', v)\<close> and \<open>pack('>I', v)\<close>: \<open>struct.error\<close> when \<open>v\<close> is out of range.\<close>

definition pack_le :: "nat \<Rightarrow> int \<Rightarrow> error + bytes" where
  "pack_le n v = (if 0 \<le> v \<and> v < 256 ^ n then Inr (le_bytes n v) else Inl StructError)"

definition pack_be :: "nat \<Rightarrow> int \<Rightarrow> error + bytes" where
  "pack_be n v = (if 0 \<le> v \<and> v < 256 ^ n then Inr (be_bytes n v) else Inl StructError)"

section \<open>The key-value store\<close>

text \<open>
  Modelled from the spec: the ordered key-value store (\<open>server.storage\<close>, not among the
  sources). Its contract is \<open>get(key) -> bytes|None\<close>, \<open>put(key, value)\<close>,
  \<open>iterator(prefix)\<close> giving the pairs whose key starts with the prefix in ascending byte
  order, and \<open>write_batch()\<close>, an atomic batch of puts and deletes committed on normal
  exit. The store is an association list; that it is held in ascending key order is a
  hypothesis of the theorems that depend on the order of iteration.
\<close>

type_synonym kv_store = "(bytes \<times> bytes) list"

definition starts_with :: "bytes \<Rightarrow> bytes \<Rightarrow> bool" where
  "starts_with p k = (take (length p) k = p)"

definition kv_get :: "kv_store \<Rightarrow> bytes \<Rightarrow> bytes option" where
  "kv_get st k = map_of st k"

definition kv_iterator :: "kv_store \<Rightarrow> bytes \<Rightarrow> (bytes \<times> bytes) list" where
  "kv_iterator st p = filter (\<lambda>kv. starts_with p (fst kv)) st"

fun kv_put :: "bytes \<Rightarrow> bytes \<Rightarrow> kv_store \<Rightarrow> kv_store" where
  "kv_put k v [] = [(k, v)]"
| "kv_put k v ((k', v') # st) =
     (if k < k' then (k, v) # (k', v') # st
      else if k = k' then (k, v) # st
      else (k', v') # kv_put k v st)"

definition kv_delete :: "bytes \<Rightarrow> kv_store \<Rightarrow> kv_store" where
  "kv_delete k st = filter (\<lambda>kv. fst kv \<noteq> k) st"

datatype batch_op = Put bytes bytes | Delete bytes

fun apply_batch_op :: "kv_store \<Rightarrow> batch_op \<Rightarrow> kv_store" where
  "apply_batch_op st (Put k v) = kv_put k v st"
| "apply_batch_op st (Delete k) = kv_delete k st"

definition write_batch :: "kv_store \<Rightarrow> batch_op list \<Rightarrow> kv_store" where
  "write_batch st ops = foldl apply_batch_op st ops"

text \<open>The one-byte table prefixes and the key of the state record.\<close>

definition prefix_H :: bytes where "prefix_H = [0x48]"
definition prefix_U :: bytes where "prefix_U = [0x55]"
definition prefix_h :: bytes where "prefix_h = [0x68]"
definition prefix_u :: bytes where "prefix_u = [0x75]"
definition state_key :: bytes where "state_key = [0x73, 0x74, 0x61, 0x74, 0x65]"

section \<open>Python values of the state record\<close>

text \<open>
  What \<open>ast.literal_eval\<close> can return for the state record: \<open>None\<close>, booleans, integers,
  strings, bytes and dictionaries. Floats, complex numbers, tuples, lists and sets are
  left out. A dictionary is the association list of its items; a string key equals no
  value of another type, so looking one up is \<open>map_of\<close>.
\<close>

datatype pyval =
    PyNone
  | PyBool bool
  | PyInt int
  | PyStr string
  | PyBytes bytes
  | PyDict "(pyval \<times> pyval) list"

text \<open>\<open>d[key]\<close> for a string key: \<open>KeyError\<close> when it is absent.\<close>

definition py_getitem :: "(pyval \<times> pyval) list \<Rightarrow> string \<Rightarrow> error + pyval" where
  "py_getitem d k = (case map_of d (PyStr k) of None \<Rightarrow> Inl KeyError | Some v \<Rightarrow> Inr v)"

text \<open>The integer a value counts as in arithmetic and comparisons (\<open>bool\<close> is an \<open>int\<close>).\<close>

fun py_int_of :: "pyval \<Rightarrow> int option" where
  "py_int_of (PyInt i) = Some i"
| "py_int_of (PyBool b) = Some (if b then 1 else 0)"
| "py_int_of _ = None"

text \<open>\<open>x in versions\<close> for a list of integers compares with \<open>==\<close>.\<close>

definition py_in_ints :: "pyval \<Rightarrow> int list \<Rightarrow> bool" where
  "py_in_ints v ns = (case py_int_of v of None \<Rightarrow> False | Some i \<Rightarrow> i \<in> set ns)"

text \<open>
  \<open>a < b\<close>: numeric between integers and booleans, lexicographic between two strings or
  two byte strings, \<open>TypeError\<close> otherwise.
\<close>

fun py_lt :: "pyval \<Rightarrow> pyval \<Rightarrow> error + bool" where
  "py_lt (PyStr a) (PyStr b) = Inr (map (of_char :: char \<Rightarrow> nat) a < map of_char b)"
| "py_lt (PyBytes a) (PyBytes b) = Inr (a < b)"
| "py_lt a b =
     (case (py_int_of a, py_int_of b) of
        (Some i, Some j) \<Rightarrow> Inr (i < j)
      | _ \<Rightarrow> Inl TypeError)"

section \<open>The database object\<close>

text \<open>
  \<open>env\<close> carries what the code reads from \<open>self.env\<close> and \<open>self.coin\<close>. The attributes
  \<open>headers\<close> and \<open>tx_hashes\<close> are set by the block processor, a subclass outside these
  sources, and read by \<open>fs_update\<close>. The \<open>txcount\<close> file is held as the list of its
  4-byte items, and the shard files \<open>hashesNNNN\<close> are indexed by their number.
\<close>

record env =
  reorg_limit :: int
  GENESIS_HASH :: string
  HEADER_LEN :: nat

record db_state =
  db :: kv_store
  db_is_new :: bool
  db_height :: int
  db_tx_count :: int
  db_tip :: bytes
  db_version :: int
  flush_count :: int
  utxo_flush_count :: int
  wall_time :: int
  first_sync :: bool
  headers_file :: bytes
  txcount_file :: "int list"
  tx_counts :: "int list"
  hash_files :: "int \<rightharpoonup> bytes"
  headers :: "bytes list"
  tx_hashes :: "bytes list list"

definition DB_VERSIONS :: "int list" where
  "DB_VERSIONS = [3]"

definition tx_hash_file_size :: int where
  "tx_hash_file_size = 16 * 1024 * 1024"

section \<open>Chain state record\<close>

text \<open>
  \<open>read_state\<close> stores whatever the record holds, of whatever type, so its result keeps
  the Python values. \<open>ast.literal_eval(state.decode())\<close> is the parameter
  \<open>literal_eval\<close>, which fails (\<open>SyntaxError\<close>, \<open>ValueError\<close>) on bytes that are not a
  literal.
\<close>

record loaded_state =
  ld_height :: pyval
  ld_tx_count :: pyval
  ld_tip :: pyval
  ld_version :: pyval
  ld_flush_count :: pyval
  ld_utxo_flush_count :: pyval
  ld_wall_time :: pyval
  ld_first_sync :: pyval

definition check_flush_counts :: "loaded_state \<Rightarrow> error + loaded_state" where
  "check_flush_counts l =
     (case py_lt (ld_flush_count l) (ld_utxo_flush_count l) of
        Inl e \<Rightarrow> Inl e
      | Inr True \<Rightarrow> Inl (DBError FlushCountCorrupt)
      | Inr False \<Rightarrow> Inr l)"

definition load_fields :: "(pyval \<times> pyval) list \<Rightarrow> pyval \<Rightarrow> error + loaded_state" where
  "load_fields d version =
     (case py_getitem d ''height'' of Inl err \<Rightarrow> Inl err | Inr height \<Rightarrow>
     (case py_getitem d ''tx_count'' of Inl err \<Rightarrow> Inl err | Inr tx_count \<Rightarrow>
     (case py_getitem d ''tip'' of Inl err \<Rightarrow> Inl err | Inr tip \<Rightarrow>
     (case py_getitem d ''flush_count'' of Inl err \<Rightarrow> Inl err | Inr fc \<Rightarrow>
     (case py_getitem d ''utxo_flush_count'' of Inl err \<Rightarrow> Inl err | Inr ufc \<Rightarrow>
     (case py_getitem d ''wall_time'' of Inl err \<Rightarrow> Inl err | Inr wt \<Rightarrow>
     (case py_getitem d ''first_sync'' of Inl err \<Rightarrow> Inl err | Inr fs \<Rightarrow>
        Inr \<lparr>ld_height = height, ld_tx_count = tx_count, ld_tip = tip,
             ld_version = version, ld_flush_count = fc, ld_utxo_flush_count = ufc,
             ld_wall_time = wt, ld_first_sync = fs\<rparr>)))))))"

definition read_state ::
  "(bytes \<Rightarrow> error + pyval) \<Rightarrow> env \<Rightarrow> db_state \<Rightarrow> error + loaded_state" where
  "read_state literal_eval e s =
     (if db_is_new s then
        check_flush_counts
          \<lparr>ld_height = PyInt (- 1), ld_tx_count = PyInt 0,
           ld_tip = PyBytes (replicate 32 0), ld_version = PyInt (Max (set DB_VERSIONS)),
           ld_flush_count = PyInt 0, ld_utxo_flush_count = PyInt 0,
           ld_wall_time = PyInt 0, ld_first_sync = PyBool True\<rparr>
      else
        case (case kv_get (db s) state_key of
                None \<Rightarrow> Inr PyNone
              | Some raw \<Rightarrow> if raw = [] then Inr (PyBytes raw) else literal_eval raw) of
          Inl err \<Rightarrow> Inl err
        | Inr (PyDict d) \<Rightarrow>
            (case py_getitem d ''db_version'' of
               Inl err \<Rightarrow> Inl err
             | Inr version \<Rightarrow>
                 if \<not> py_in_ints version DB_VERSIONS then Inl (DBError UnhandledVersion)
                 else
                   (case py_getitem d ''genesis'' of
                      Inl err \<Rightarrow> Inl err
                    | Inr genesis \<Rightarrow>
                        if genesis \<noteq> PyStr (GENESIS_HASH e) then
                          (case py_getitem d ''genesis_hash'' of
                             Inl err \<Rightarrow> Inl err
                           | Inr _ \<Rightarrow> Inl (DBError GenesisMismatch))
                        else
                          (case load_fields d version of
                             Inl err \<Rightarrow> Inl err
                           | Inr l \<Rightarrow> check_flush_counts l)))
        | Inr _ \<Rightarrow> Inl (DBError FailedReadingState))"

text \<open>
  \<open>write_state\<close> adds one put of the whole record to the caller's batch;
  \<open>repr(state).encode()\<close> is the parameter \<open>py_repr\<close>.
\<close>

definition state_dict :: "env \<Rightarrow> db_state \<Rightarrow> pyval" where
  "state_dict e s = PyDict
     [(PyStr ''genesis'', PyStr (GENESIS_HASH e)),
      (PyStr ''height'', PyInt (db_height s)),
      (PyStr ''tx_count'', PyInt (db_tx_count s)),
      (PyStr ''tip'', PyBytes (db_tip s)),
      (PyStr ''flush_count'', PyInt (flush_count s)),
      (PyStr ''utxo_flush_count'', PyInt (utxo_flush_count s)),
      (PyStr ''wall_time'', PyInt (wall_time s)),
      (PyStr ''first_sync'', PyBool (first_sync s)),
      (PyStr ''db_version'', PyInt (db_version s))]"

definition write_state ::
  "(pyval \<Rightarrow> bytes) \<Rightarrow> env \<Rightarrow> db_state \<Rightarrow> batch_op list \<Rightarrow> batch_op list" where
  "write_state py_repr e s batch = batch @ [Put state_key (py_repr (state_dict e s))]"

section \<open>Recovery\<close>

fun excess_history_loop :: "int \<Rightarrow> (bytes \<times> bytes) list \<Rightarrow> bytes list \<Rightarrow> error + bytes list" where
  "excess_history_loop ufc [] keys = Inr keys"
| "excess_history_loop ufc ((key, hist) # rest) keys =
     (case unpack_be 2 (last_n 2 key) of
        Inl err \<Rightarrow> Inl err
      | Inr flush_id \<Rightarrow>
          excess_history_loop ufc rest
            (if flush_id > ufc then keys @ [key] else keys))"

definition excess_history_keys :: "db_state \<Rightarrow> error + bytes list" where
  "excess_history_keys s =
     excess_history_loop (utxo_flush_count s) (kv_iterator (db s) prefix_H) []"

fun stale_undo_loop :: "int \<Rightarrow> (bytes \<times> bytes) list \<Rightarrow> bytes list \<Rightarrow> error + bytes list" where
  "stale_undo_loop cutoff [] keys = Inr keys"
| "stale_undo_loop cutoff ((key, hist) # rest) keys =
     (case unpack_be 4 (last_n 4 key) of
        Inl err \<Rightarrow> Inl err
      | Inr height \<Rightarrow>
          if height > cutoff then Inr keys
          else stale_undo_loop cutoff rest (keys @ [key]))"

definition stale_undo_keys :: "env \<Rightarrow> db_state \<Rightarrow> error + bytes list" where
  "stale_undo_keys e s =
     stale_undo_loop (db_height s - reorg_limit e) (kv_iterator (db s) prefix_U) []"

text \<open>
  \<open>clean_db\<close> raises \<open>utxo_flush_count\<close> first and scans for excess history afterwards, as
  the source does. An exception leaves \<open>__init__\<close>, so an error carries no state.
\<close>

definition clean_db :: "(pyval \<Rightarrow> bytes) \<Rightarrow> env \<Rightarrow> db_state \<Rightarrow> error + db_state" where
  "clean_db py_repr e s =
     (let s1 = (if flush_count s > utxo_flush_count s
                then s\<lparr>utxo_flush_count := flush_count s\<rparr> else s)
      in case (if flush_count s > utxo_flush_count s
               then excess_history_keys s1 else Inr []) of
           Inl err \<Rightarrow> Inl err
         | Inr history_keys \<Rightarrow>
             (case stale_undo_keys e s1 of
                Inl err \<Rightarrow> Inl err
              | Inr undo_keys \<Rightarrow>
                  Inr (s1\<lparr>db := write_batch (db s1)
                        (write_state py_repr e s1
                           (map Delete history_keys @ map Delete undo_keys))\<rparr>)))"

definition undo_key :: "int \<Rightarrow> error + bytes" where
  "undo_key height = map_sum id (\<lambda>p. prefix_U @ p) (pack_be 4 height)"

section \<open>Flat files\<close>

text \<open>
  \<open>f.seek(pos); f.write(data)\<close> overwrites from \<open>pos\<close> on and extends the file, filling a
  gap before \<open>pos\<close> with zeros. \<open>f.seek(pos); f.read(n)\<close> returns at most \<open>n\<close> items.
\<close>

definition file_write :: "'a::zero list \<Rightarrow> nat \<Rightarrow> 'a list \<Rightarrow> 'a list" where
  "file_write f pos data =
     take pos f @ replicate (pos - length f) 0 @ data @ drop (pos + length data) f"

definition file_read :: "'a list \<Rightarrow> nat \<Rightarrow> nat \<Rightarrow> 'a list" where
  "file_read f pos n = take n (drop pos f)"

text \<open>
  The loop of \<open>fs_update\<close> that spreads the hashes over the shard files. A shard is
  opened with \<open>create=True\<close>: an absent one starts empty.
\<close>

function write_hashes :: "(int \<rightharpoonup> bytes) \<Rightarrow> bytes \<Rightarrow> int \<Rightarrow> int \<Rightarrow> (int \<rightharpoonup> bytes)" where
  "write_hashes files hashes cursor file_pos =
     (if cursor < int (length hashes) then
        (let file_num = file_pos div tx_hash_file_size;
             offset = file_pos mod tx_hash_file_size;
             size = min (int (length hashes) - cursor) (tx_hash_file_size - offset);
             f = (case files file_num of None \<Rightarrow> [] | Some old \<Rightarrow> old)
         in write_hashes
              (files(file_num \<mapsto>
                 file_write f (nat offset) (take (nat size) (drop (nat cursor) hashes))))
              hashes (cursor + size) (file_pos + size))
      else files)"
  by pat_completeness auto
termination
proof (relation "measure (\<lambda>(files, hashes, cursor, file_pos). nat (int (length hashes) - cursor))")
  show "wf (measure (\<lambda>(files, hashes, cursor, file_pos). nat (int (length hashes) - cursor)))"
    by simp
next
  fix files :: "int \<rightharpoonup> bytes" and hashes :: bytes and cursor file_pos :: int
    and file_num offset size :: int and f :: bytes
  assume c: "cursor < int (length hashes)"
    and o: "offset = file_pos mod tx_hash_file_size"
    and sz: "size = min (int (length hashes) - cursor) (tx_hash_file_size - offset)"
  have "offset < tx_hash_file_size"
    using o by (simp add: tx_hash_file_size_def)
  with c sz have "0 < size" by simp
  with c show "((files(file_num \<mapsto>
                   file_write f (nat offset) (take (nat size) (drop (nat cursor) hashes))),
                 hashes, cursor + size, file_pos + size),
                (files, hashes, cursor, file_pos))
               \<in> measure (\<lambda>(files, hashes, cursor, file_pos). nat (int (length hashes) - cursor))"
    by simp
qed

declare write_hashes.simps [simp del]

definition fs_update ::
  "env \<Rightarrow> db_state \<Rightarrow> int \<Rightarrow> bytes list \<Rightarrow> bytes list list \<Rightarrow> error + db_state" where
  "fs_update e s fs_height hdrs block_tx_hashes =
     (let blocks_done = int (length (headers s));
          new_height = fs_height + blocks_done
      in if fs_height \<ge> int (length (tx_counts s)) then Inl IndexError
         else
           let prior_tx_count = (if fs_height \<ge> 0 then tx_counts s ! nat fs_height else 0);
               cur_tx_count = (if tx_counts s \<noteq> [] then last (tx_counts s) else 0);
               txs_done = cur_tx_count - prior_tx_count
           in if int (length (tx_hashes s)) \<noteq> blocks_done then Inl AssertionError
              else if int (length (tx_counts s)) \<noteq> new_height + 1 then Inl AssertionError
              else if fs_height + 1 < 0 then Inl OSError
              else
                let headers_file' =
                      file_write (headers_file s) (nat (fs_height + 1) * HEADER_LEN e)
                        (concat hdrs);
                    txcount_file' =
                      file_write (txcount_file s) (nat (fs_height + 1))
                        (drop (nat (fs_height + 1)) (tx_counts s));
                    hashes = concat (concat block_tx_hashes)
                in if length hashes mod 32 \<noteq> 0 then Inl AssertionError
                   else if int (length hashes div 32) \<noteq> txs_done then Inl AssertionError
                   else Inr (s\<lparr>headers_file := headers_file',
                               txcount_file := txcount_file',
                               hash_files :=
                                 write_hashes (hash_files s) hashes 0
                                   (prior_tx_count * 32)\<rparr>))"

definition read_headers :: "env \<Rightarrow> db_state \<Rightarrow> int \<Rightarrow> int \<Rightarrow> error + bytes" where
  "read_headers e s start count =
     (let disk_count = min count (db_height s + 1 - start)
      in if start < 0 \<or> count < 0 \<or> disk_count \<noteq> count then Inl (DBError HeadersNotOnDisk)
         else if disk_count \<noteq> 0 then
           Inr (file_read (headers_file s) (nat start * HEADER_LEN e)
                  (nat disk_count * HEADER_LEN e))
         else Inr [])"

text \<open>\<open>bisect.bisect_right(a, x)\<close>, the loop of the standard library.\<close>

function bisect_loop :: "int list \<Rightarrow> int \<Rightarrow> nat \<Rightarrow> nat \<Rightarrow> nat" where
  "bisect_loop a x lo hi =
     (if lo < hi then
        (let mid = (lo + hi) div 2
         in if x < a ! mid then bisect_loop a x lo mid
            else bisect_loop a x (mid + 1) hi)
      else lo)"
  by pat_completeness auto
termination
  by (relation "measure (\<lambda>(a, x, lo, hi). hi - lo)") auto

declare bisect_loop.simps [simp del]

definition bisect_right :: "int list \<Rightarrow> int \<Rightarrow> nat" where
  "bisect_right a x = bisect_loop a x 0 (length a)"

text \<open>
  \<open>fs_tx_hash\<close>: the pair \<open>(tx_hash, tx_height)\<close>, the hash \<open>None\<close> when the height is
  not on disk. The shard is opened without \<open>create\<close>.
\<close>

definition fs_tx_hash :: "db_state \<Rightarrow> int \<Rightarrow> error + (bytes option \<times> int)" where
  "fs_tx_hash s tx_num =
     (let tx_height = int (bisect_right (tx_counts s) tx_num)
      in if tx_height > db_height s then Inr (None, tx_height)
         else
           let file_pos = tx_num * 32;
               file_num = file_pos div tx_hash_file_size;
               offset = file_pos mod tx_hash_file_size
           in case hash_files s file_num of
                None \<Rightarrow> Inl FileNotFoundError
              | Some f \<Rightarrow> Inr (Some (file_read f (nat offset) 32), tx_height))"

section \<open>History\<close>

definition resolve_limit :: "int option \<Rightarrow> error + int" where
  "resolve_limit limit =
     (case limit of
        None \<Rightarrow> Inr (- 1)
      | Some l \<Rightarrow> if l \<ge> 0 then Inr l else Inl AssertionError)"

text \<open>
  \<open>array.array('I').frombytes\<close>: 4-byte items in the machine's byte order, taken as
  little-endian here; \<open>ValueError\<close> unless the length is a multiple of the item size.
\<close>

fun chunks4 :: "bytes \<Rightarrow> int list" where
  "chunks4 (a # b # c # d # rest) = le_int [a, b, c, d] # chunks4 rest"
| "chunks4 _ = []"

definition array_frombytes :: "bytes \<Rightarrow> error + int list" where
  "array_frombytes hist =
     (if length hist mod 4 = 0 then Inr (chunks4 hist) else Inl ValueError)"

text \<open>
  A generator's run is the list of the items it yields and how it ends: exhausted or
  returned (\<open>None\<close>), or raising.
\<close>

datatype stop = Return | Raise error

fun history_nums ::
  "db_state \<Rightarrow> int \<Rightarrow> int list \<Rightarrow> (bytes option \<times> int) list \<times> int \<times> stop option" where
  "history_nums s limit [] = ([], limit, None)"
| "history_nums s limit (tx_num # rest) =
     (if limit = 0 then ([], limit, Some Return)
      else case fs_tx_hash s tx_num of
             Inl err \<Rightarrow> ([], limit, Some (Raise err))
           | Inr item \<Rightarrow>
               (case history_nums s (limit - 1) rest of
                  (items, limit', st) \<Rightarrow> (item # items, limit', st)))"

fun history_keys ::
  "db_state \<Rightarrow> int \<Rightarrow> (bytes \<times> bytes) list \<Rightarrow> (bytes option \<times> int) list \<times> error option" where
  "history_keys s limit [] = ([], None)"
| "history_keys s limit ((key, hist) # rest) =
     (case array_frombytes hist of
        Inl err \<Rightarrow> ([], Some err)
      | Inr a \<Rightarrow>
          (case history_nums s limit a of
             (items, limit', Some Return) \<Rightarrow> (items, None)
           | (items, limit', Some (Raise err)) \<Rightarrow> (items, Some err)
           | (items, limit', None) \<Rightarrow>
               (case history_keys s limit' rest of
                  (items', end') \<Rightarrow> (items @ items', end'))))"

definition get_history ::
  "db_state \<Rightarrow> bytes \<Rightarrow> int option \<Rightarrow> (bytes option \<times> int) list \<times> error option" where
  "get_history s hash168 limit =
     (case resolve_limit limit of
        Inl err \<Rightarrow> ([], Some err)
      | Inr l \<Rightarrow> history_keys s l (kv_iterator (db s) (prefix_H @ hash168)))"

section \<open>UTXO lookups\<close>

fun db_hash168_loop ::
  "db_state \<Rightarrow> bytes \<Rightarrow> (bytes \<times> bytes) list \<Rightarrow> error + (bytes option \<times> bytes option)" where
  "db_hash168_loop s tx_hash [] = Inr (None, None)"
| "db_hash168_loop s tx_hash ((db_key, hash168) # rest) =
     (if length hash168 \<noteq> 21 then Inl AssertionError
      else
        let tx_num_packed = last_n 4 db_key
        in case unpack_le 4 tx_num_packed of
             Inl err \<Rightarrow> Inl err
           | Inr tx_num \<Rightarrow>
               (case fs_tx_hash s tx_num of
                  Inl err \<Rightarrow> Inl err
                | Inr (hash, height) \<Rightarrow>
                    if hash = Some tx_hash then Inr (Some hash168, Some tx_num_packed)
                    else db_hash168_loop s tx_hash rest))"

definition db_hash168 ::
  "db_state \<Rightarrow> bytes \<Rightarrow> bytes \<Rightarrow> error + (bytes option \<times> bytes option)" where
  "db_hash168 s tx_hash idx_packed =
     db_hash168_loop s tx_hash
       (kv_iterator (db s) (prefix_h @ take 4 tx_hash @ idx_packed))"

definition get_utxo_hash168 :: "db_state \<Rightarrow> bytes \<Rightarrow> int \<Rightarrow> error + bytes option" where
  "get_utxo_hash168 s tx_hash index =
     (if 0 \<le> index \<and> index \<le> 65535 then
        (case pack_le 2 index of
           Inl err \<Rightarrow> Inl err
         | Inr idx_packed \<Rightarrow>
             (case db_hash168 s tx_hash idx_packed of
                Inl err \<Rightarrow> Inl err
              | Inr (hash168, tx_num_packed) \<Rightarrow> Inr hash168))
      else Inr None)"

text \<open>\<open>not x\<close> for a value that is \<open>None\<close> or bytes.\<close>

definition py_not :: "bytes option \<Rightarrow> bool" where
  "py_not x = (case x of None \<Rightarrow> True | Some b \<Rightarrow> b = [])"

definition db_utxo_lookup :: "db_state \<Rightarrow> bytes \<Rightarrow> int \<Rightarrow> error + (bytes \<times> int)" where
  "db_utxo_lookup s tx_hash tx_idx =
     (case pack_le 2 tx_idx of
        Inl err \<Rightarrow> Inl err
      | Inr idx_packed \<Rightarrow>
          (case db_hash168 s tx_hash idx_packed of
             Inl err \<Rightarrow> Inl err
           | Inr (hash168, tx_num_packed) \<Rightarrow>
               if py_not hash168 then Inl MissingUTXOError
               else
                 (case (hash168, tx_num_packed) of
                    (Some h, Some t) \<Rightarrow>
                      (let key = prefix_u @ h @ idx_packed @ t;
                           db_value = kv_get (db s) key
                       in if py_not db_value then Inl (DBError OneTableOnly)
                          else case db_value of
                                 None \<Rightarrow> Inl (DBError OneTableOnly)
                               | Some v \<Rightarrow>
                                   (case unpack_le 8 v of
                                      Inl err \<Rightarrow> Inl err
                                    | Inr value \<Rightarrow> Inr (h, value)))
                  | _ \<Rightarrow> Inl TypeError)))"

section \<open>Sample data\<close>

text \<open>
  A small environment and database used to run the definitions: two addresses, three
  transactions of which two share their first four bytes, two headers, and stand-ins for
  \<open>repr\<close> and \<open>ast.literal_eval\<close>.
\<close>

definition sample_env :: env where
  "sample_env = \<lparr>reorg_limit = 2, GENESIS_HASH = ''00'', HEADER_LEN = 4\<rparr>"

definition sample_repr :: "pyval \<Rightarrow> bytes" where
  "sample_repr v = [0x7B, 0x7D]"

definition eval_to :: "pyval \<Rightarrow> bytes \<Rightarrow> error + pyval" where
  "eval_to v raw = Inr v"

definition addr_a :: bytes where "addr_a = replicate 21 0x11"
definition addr_b :: bytes where "addr_b = replicate 21 0x22"

definition tx_0 :: bytes where "tx_0 = [9, 9, 9, 9] @ replicate 28 0xA0"
definition tx_1 :: bytes where "tx_1 = [1, 2, 3, 4] @ replicate 28 0xA1"
definition tx_2 :: bytes where "tx_2 = [1, 2, 3, 4] @ replicate 28 0xA2"
definition tx_9 :: bytes where "tx_9 = [1, 2, 3, 4] @ replicate 28 0xA9"

definition header_a :: bytes where "header_a = [1, 2, 3, 4]"
definition header_b :: bytes where "header_b = [5, 6, 7, 8]"

definition blank_state :: db_state where
  "blank_state = \<lparr>db = [], db_is_new = False, db_height = - 1, db_tx_count = 0,
     db_tip = replicate 32 0, db_version = 3, flush_count = 0, utxo_flush_count = 0,
     wall_time = 0, first_sync = True, headers_file = [], txcount_file = [],
     tx_counts = [], hash_files = Map.empty, headers = [], tx_hashes = []\<rparr>"

definition unclean_state :: db_state where
  "unclean_state = blank_state\<lparr>
     db := [(prefix_H @ addr_a @ [0, 1], [5, 0, 0, 0]),
            (prefix_H @ addr_a @ [0, 2], [9, 0, 0, 0])],
     flush_count := 2, utxo_flush_count := 1\<rparr>"

definition aged_state :: db_state where
  "aged_state = blank_state\<lparr>
     db := [(prefix_U @ [0, 0, 0, 2], [1]), (prefix_U @ [0, 0, 0, 3], [2]),
            (prefix_U @ [0, 0, 0, 4], [3]), (prefix_U @ [0, 0, 0, 5], [4])],
     db_height := 5\<rparr>"

definition unwritten_state :: db_state where
  "unwritten_state = blank_state\<lparr>
     tx_counts := [1, 3], headers := [header_a, header_b],
     tx_hashes := [[tx_0], [tx_1, tx_2]]\<rparr>"

definition indexed_state :: db_state where
  "indexed_state = blank_state\<lparr>
     db := [(prefix_H @ addr_a @ [0, 1], [0, 0, 0, 0, 1, 0, 0, 0]),
            (prefix_H @ addr_b @ [0, 1], [2, 0, 0, 0, 7, 0, 0, 0]),
            (prefix_h @ [1, 2, 3, 4] @ [0, 0] @ [1, 0, 0, 0], addr_a),
            (prefix_h @ [1, 2, 3, 4] @ [0, 0] @ [2, 0, 0, 0], addr_b),
            (prefix_u @ addr_b @ [0, 0] @ [2, 0, 0, 0], [0x10, 0x27, 0, 0, 0, 0, 0, 0])],
     db_height := 1, db_tx_count := 3, flush_count := 1, utxo_flush_count := 1,
     headers_file := header_a @ header_b, txcount_file := [1, 3], tx_counts := [1, 3],
     hash_files := [0 \<mapsto> tx_0 @ tx_1 @ tx_2]\<rparr>"

definition empty_record_state :: db_state where
  "empty_record_state = blank_state\<lparr>db := [(state_key, [0x7B, 0x7D])]\<rparr>"

definition stored_state :: db_state where
  "stored_state = indexed_state\<lparr>db := [(state_key, sample_repr PyNone)]\<rparr>"


section \<open>Bisection\<close>



section \<open>Headers on disk\<close>

lemma length_concat_fixed:
  "list_all (\<lambda>h. length h = L) hs \<Longrightarrow> length (concat hs) = length hs * L"
  by (induction hs) simp_all

lemma drop_concat_fixed:
  "list_all (\<lambda>h. length h = L) hs \<Longrightarrow> drop (n * L) (concat hs) = concat (drop n hs)"
proof (induction hs arbitrary: n)
  case Nil
  then show ?case by simp
next
  case (Cons h hs)
  show ?case
  proof (cases n)
    case 0
    then show ?thesis by simp
  next
    case (Suc m)
    with Cons show ?thesis by simp
  qed
qed

lemma take_concat_fixed:
  "list_all (\<lambda>h. length h = L) hs \<Longrightarrow> take (n * L) (concat hs) = concat (take n hs)"
proof (induction hs arbitrary: n)
  case Nil
  then show ?case by simp
next
  case (Cons h hs)
  show ?case
  proof (cases n)
    case 0
    then show ?thesis by simp
  next
    case (Suc m)
    with Cons show ?thesis by simp
  qed
qed

lemma read_headers_error_iff:
  "isl (read_headers e s start count)
     = (start < 0 \<or> count < 0 \<or> db_height s + 1 < start + count)"
  by (auto simp: read_headers_def Let_def min_def)

lemma read_headers_error_kind:
  "isl (read_headers e s start count)
     \<Longrightarrow> read_headers e s start count = Inl (DBError HeadersNotOnDisk)"
  by (auto simp: read_headers_def Let_def split: if_splits)

lemma read_headers_on_disk:
  assumes f: "headers_file s = concat hs"
    and l: "list_all (\<lambda>h. length h = HEADER_LEN e) hs"
    and n: "int (length hs) = db_height s + 1"
    and ok: "\<not> isl (read_headers e s start count)"
  shows "read_headers e s start count = Inr (concat (take (nat count) (drop (nat start) hs)))"
    and "length (concat (take (nat count) (drop (nat start) hs))) = nat count * HEADER_LEN e"
proof -
  from ok have r: "0 \<le> start" "0 \<le> count" "start + count \<le> db_height s + 1"
    by (simp_all add: read_headers_error_iff)
  have l2: "list_all (\<lambda>h. length h = HEADER_LEN e) (drop (nat start) hs)"
    using l by (simp add: list_all_iff) (meson in_set_dropD)
  have rd: "file_read (concat hs) (nat start * HEADER_LEN e) (nat count * HEADER_LEN e)
      = concat (take (nat count) (drop (nat start) hs))"
    by (simp add: file_read_def drop_concat_fixed[OF l] take_concat_fixed[OF l2])
  show "read_headers e s start count = Inr (concat (take (nat count) (drop (nat start) hs)))"
    using r f rd by (simp add: read_headers_def Let_def min_def)
  have l3: "list_all (\<lambda>h. length h = HEADER_LEN e) (take (nat count) (drop (nat start) hs))"
    using l2 by (simp add: list_all_iff) (meson in_set_takeD)
  have "length (take (nat count) (drop (nat start) hs)) = nat count"
    using r n by simp
  with length_concat_fixed[OF l3]
  show "length (concat (take (nat count) (drop (nat start) hs))) = nat count * HEADER_LEN e"
    by simp
qed

lemma fs_update_headers_file:
  assumes f: "headers_file s = concat hs"
    and l: "list_all (\<lambda>h. length h = HEADER_LEN e) hs"
    and n: "int (length hs) = fs_height + 1"
    and u: "fs_update e s fs_height hdrs bth = Inr s'"
  shows "headers_file s' = concat (hs @ hdrs)"
proof -
  have "length hs = nat (fs_height + 1)"
    using n by linarith
  then have len: "length (concat hs) = nat (fs_height + 1) * HEADER_LEN e"
    using length_concat_fixed[OF l] by simp
  from u have "headers_file s'
      = file_write (headers_file s) (nat (fs_height + 1) * HEADER_LEN e) (concat hdrs)"
    by (auto simp: fs_update_def Let_def split: if_splits)
  with f len show ?thesis by (simp add: file_write_def)
qed

lemma read_one_header:
  assumes f: "headers_file t = concat hs"
    and l: "list_all (\<lambda>h. length h = HEADER_LEN e) hs"
    and h: "0 \<le> h" "h \<le> db_height t" "nat h < length hs"
  shows "read_headers e t h 1 = Inr (hs ! nat h)"
proof -
  have l2: "list_all (\<lambda>h. length h = HEADER_LEN e) (drop (nat h) hs)"
    using l by (simp add: list_all_iff) (meson in_set_dropD)
  have "take 1 (drop (nat h) hs) = [hs ! nat h]"
    using h(3) by (simp add: take_Suc_conv_app_nth Cons_nth_drop_Suc [symmetric])
  then have "file_read (concat hs) (nat h * HEADER_LEN e) (HEADER_LEN e) = hs ! nat h"
    using take_concat_fixed[OF l2, of 1] by (simp add: file_read_def drop_concat_fixed[OF l])
  with f h show ?thesis by (simp add: read_headers_def Let_def min_def)
qed

section \<open>Transaction hashes and history\<close>

lemma fs_tx_hash_past_height:
  "db_height s < int (bisect_right (tx_counts s) tx_num) \<Longrightarrow>
   fs_tx_hash s tx_num = Inr (None, int (bisect_right (tx_counts s) tx_num))"
  by (simp add: fs_tx_hash_def Let_def)

lemma fs_tx_hash_error:
  "fs_tx_hash s n = Inl err \<Longrightarrow> err = FileNotFoundError"
  by (auto simp: fs_tx_hash_def Let_def split: if_splits option.splits)

lemma fs_tx_hash_total:
  "db_height s < int (bisect_right (tx_counts s) n)
     \<or> hash_files s (n * 32 div tx_hash_file_size) \<noteq> None
   \<Longrightarrow> \<not> isl (fs_tx_hash s n)"
  by (auto simp: fs_tx_hash_def Let_def)

lemma history_nums_limited:
  "list_all (\<lambda>n. \<not> isl (fs_tx_hash s n)) a \<Longrightarrow>
   history_nums s limit a
     = (if limit < 0 \<or> int (length a) \<le> limit
        then (map (\<lambda>n. projr (fs_tx_hash s n)) a, limit - int (length a), None)
        else (take (nat limit) (map (\<lambda>n. projr (fs_tx_hash s n)) a), 0, Some Return))"
proof (induction a arbitrary: limit)
  case Nil
  then show ?case by auto
next
  case (Cons n a)
  from Cons.prems obtain item where it: "fs_tx_hash s n = Inr item"
    by (cases "fs_tx_hash s n") auto
  from Cons.prems have ok: "list_all (\<lambda>n. \<not> isl (fs_tx_hash s n)) a" by simp
  note ih = Cons.IH[OF ok, of "limit - 1"]
  show ?case
  proof (cases "limit = 0")
    case True
    then show ?thesis by simp
  next
    case False
    show ?thesis
    proof (cases "limit < 0 \<or> int (length (n # a)) \<le> limit")
      case True
      then have "limit - 1 < 0 \<or> int (length a) \<le> limit - 1" by auto
      with ih False it True show ?thesis by simp
    next
      case nl: False
      then have c: "\<not> (limit - 1 < 0 \<or> int (length a) \<le> limit - 1)" using False by auto
      from nl False have "nat limit = Suc (nat (limit - 1))" by linarith
      with ih False it nl c show ?thesis by simp
    qed
  qed
qed

lemma history_keys_limited:
  "list_all (\<lambda>kv. length (snd kv) mod 4 = 0
       \<and> list_all (\<lambda>n. \<not> isl (fs_tx_hash s n)) (chunks4 (snd kv))) es \<Longrightarrow>
   history_keys s limit es
     = ((if limit < 0
         then map (\<lambda>n. projr (fs_tx_hash s n)) (concat (map (\<lambda>kv. chunks4 (snd kv)) es))
         else take (nat limit)
                (map (\<lambda>n. projr (fs_tx_hash s n)) (concat (map (\<lambda>kv. chunks4 (snd kv)) es)))),
        None)"
proof (induction es arbitrary: limit)
  case Nil
  then show ?case by simp
next
  case (Cons kv es)
  obtain key hist where kv: "kv = (key, hist)" by (cases kv)
  from Cons.prems kv have h: "array_frombytes hist = Inr (chunks4 hist)"
    and a: "list_all (\<lambda>n. \<not> isl (fs_tx_hash s n)) (chunks4 hist)"
    by (simp_all add: array_frombytes_def)
  from Cons.prems have rest: "list_all (\<lambda>kv. length (snd kv) mod 4 = 0
       \<and> list_all (\<lambda>n. \<not> isl (fs_tx_hash s n)) (chunks4 (snd kv))) es" by simp
  note n = history_nums_limited[OF a, of limit]
  note ih = Cons.IH[OF rest, of "limit - int (length (chunks4 hist))"]
  show ?case
  proof (cases "limit < 0 \<or> int (length (chunks4 hist)) \<le> limit")
    case True
    show ?thesis
    proof (cases "limit < 0")
      case neg: True
      with n ih h kv show ?thesis by simp
    next
      case False
      with True have ge: "int (length (chunks4 hist)) \<le> limit" by simp
      then have "nat (limit - int (length (chunks4 hist))) = nat limit - length (chunks4 hist)"
        by simp
      with n ih h kv ge False show ?thesis by simp
    qed
  next
    case False
    then have "nat limit \<le> length (chunks4 hist)" by linarith
    with n h kv False show ?thesis by simp
  qed
qed

section \<open>Owner and value lookups\<close>

lemma get_utxo_hash168_out_of_range:
  "index < 0 \<or> 65535 < index \<Longrightarrow> get_utxo_hash168 s tx_hash index = Inr None"
  by (auto simp: get_utxo_hash168_def)

lemma get_utxo_hash168_in_range:
  "0 \<le> index \<Longrightarrow> index \<le> 65535 \<Longrightarrow>
   get_utxo_hash168 s tx_hash index
     = map_sum id fst (db_hash168 s tx_hash (le_bytes 2 index))"
  by (auto simp: get_utxo_hash168_def pack_le_def split: sum.splits)

lemma db_hash168_loop_error:
  "db_hash168_loop s tx_hash es = Inl err \<Longrightarrow>
   err = AssertionError \<or> err = StructError \<or> err = FileNotFoundError"
proof (induction es)
  case Nil
  then show ?case by simp
next
  case (Cons kv es)
  obtain k v where kv: "kv = (k, v)" by (cases kv)
  from Cons kv show ?case
    by (auto simp: Let_def unpack_le_def split: if_splits sum.splits dest: fs_tx_hash_error)
qed

lemma db_hash168_loop_result:
  "db_hash168_loop s tx_hash es = Inr (a, b) \<Longrightarrow>
   (a = None \<and> b = None)
   \<or> (\<exists>k hv. (k, hv) \<in> set es \<and> a = Some hv \<and> b = Some (last_n 4 k) \<and> length hv = 21
        \<and> length (last_n 4 k) = 4
        \<and> (\<exists>ht. fs_tx_hash s (le_int (last_n 4 k)) = Inr (Some tx_hash, ht)))"
proof (induction es)
  case Nil
  then show ?case by simp
next
  case (Cons kv es)
  obtain k v where kv: "kv = (k, v)" by (cases kv)
  show ?case
  proof (cases "length v \<noteq> 21")
    case True
    with Cons.prems kv show ?thesis by simp
  next
    case len: False
    show ?thesis
    proof (cases "unpack_le 4 (last_n 4 k)")
      case (Inl err)
      with Cons.prems kv len show ?thesis by (simp add: Let_def)
    next
      case (Inr n)
      then have n: "n = le_int (last_n 4 k)" "length (last_n 4 k) = 4"
        by (auto simp: unpack_le_def split: if_splits)
      show ?thesis
      proof (cases "fs_tx_hash s n")
        case (Inl err)
        with Cons.prems kv len Inr show ?thesis by (simp add: Let_def)
      next
        case r: (Inr p)
        obtain hash ht where p: "p = (hash, ht)" by (cases p)
        show ?thesis
        proof (cases "hash = Some tx_hash")
          case True
          with Cons.prems kv len Inr r p n show ?thesis by (auto simp: Let_def)
        next
          case False
          with Cons.prems kv len Inr r p have "db_hash168_loop s tx_hash es = Inr (a, b)"
            by (simp add: Let_def)
          from Cons.IH[OF this] show ?thesis by auto
        qed
      qed
    qed
  qed
qed

lemma db_hash168_loop_find:
  "list_all (\<lambda>kv. length (snd kv) = 21 \<and> 4 \<le> length (fst kv)
       \<and> \<not> isl (fs_tx_hash s (le_int (last_n 4 (fst kv))))) es \<Longrightarrow>
   db_hash168_loop s tx_hash es
     = (case find (\<lambda>kv. fst (projr (fs_tx_hash s (le_int (last_n 4 (fst kv)))))
                         = Some tx_hash) es of
          None \<Rightarrow> Inr (None, None)
        | Some kv \<Rightarrow> Inr (Some (snd kv), Some (last_n 4 (fst kv))))"
proof (induction es)
  case Nil
  then show ?case by simp
next
  case (Cons kv es)
  obtain k v where kv: "kv = (k, v)" by (cases kv)
  from Cons.prems kv have v: "length v = 21" and k: "4 \<le> length k"
    and f: "\<not> isl (fs_tx_hash s (le_int (last_n 4 k)))" by simp_all
  from k have u: "unpack_le 4 (last_n 4 k) = Inr (le_int (last_n 4 k))"
    by (simp add: unpack_le_def last_n_def)
  from f obtain hash ht where r: "fs_tx_hash s (le_int (last_n 4 k)) = Inr (hash, ht)"
    by (cases "fs_tx_hash s (le_int (last_n 4 k))") auto
  from Cons.IH Cons.prems have ih: "db_hash168_loop s tx_hash es
     = (case find (\<lambda>kv. fst (projr (fs_tx_hash s (le_int (last_n 4 (fst kv)))))
                         = Some tx_hash) es of
          None \<Rightarrow> Inr (None, None)
        | Some kv \<Rightarrow> Inr (Some (snd kv), Some (last_n 4 (fst kv))))"
    by simp
  show ?case using kv v u r ih by (simp add: Let_def)
qed

lemma db_utxo_lookup_missing_iff:
  "(db_utxo_lookup s tx_hash tx_idx = Inl MissingUTXOError)
   = (0 \<le> tx_idx \<and> tx_idx \<le> 65535
      \<and> db_hash168 s tx_hash (le_bytes 2 tx_idx) = Inr (None, None))"
proof (cases "0 \<le> tx_idx \<and> tx_idx \<le> 65535")
  case False
  then show ?thesis by (auto simp: db_utxo_lookup_def pack_le_def)
next
  case True
  then have p: "pack_le 2 tx_idx = Inr (le_bytes 2 tx_idx)"
    by (simp add: pack_le_def)
  show ?thesis
  proof (cases "db_hash168 s tx_hash (le_bytes 2 tx_idx)")
    case (Inl err)
    then have "db_hash168_loop s tx_hash
        (kv_iterator (db s) (prefix_h @ take 4 tx_hash @ le_bytes 2 tx_idx)) = Inl err"
      by (simp add: db_hash168_def)
    from db_hash168_loop_error[OF this] have "err \<noteq> MissingUTXOError" by auto
    with Inl p True show ?thesis by (simp add: db_utxo_lookup_def)
  next
    case (Inr r)
    obtain a b where r: "r = (a, b)" by (cases r)
    from Inr r have "db_hash168_loop s tx_hash
        (kv_iterator (db s) (prefix_h @ take 4 tx_hash @ le_bytes 2 tx_idx)) = Inr (a, b)"
      by (simp add: db_hash168_def)
    from db_hash168_loop_result[OF this]
    consider "a = None \<and> b = None" | hv tv where "a = Some hv" "b = Some tv" "length hv = 21"
      by blast
    then show ?thesis
    proof cases
      case 1
      with Inr r p True show ?thesis by (simp add: db_utxo_lookup_def py_not_def)
    next
      case 2
      then have "\<not> py_not a" by (auto simp: py_not_def)
      with 2 Inr r p True show ?thesis
        by (auto simp: db_utxo_lookup_def Let_def unpack_le_def
            split: option.splits sum.splits if_splits)
    qed
  qed
qed

lemma db_utxo_lookup_found:
  assumes i: "0 \<le> tx_idx" "tx_idx \<le> 65535"
    and o: "db_hash168 s tx_hash (le_bytes 2 tx_idx) = Inr (Some h, Some t)"
  shows "kv_get (db s) (prefix_u @ h @ le_bytes 2 tx_idx @ t) = None
         \<or> kv_get (db s) (prefix_u @ h @ le_bytes 2 tx_idx @ t) = Some []
           \<Longrightarrow> db_utxo_lookup s tx_hash tx_idx = Inl (DBError OneTableOnly)"
    and "kv_get (db s) (prefix_u @ h @ le_bytes 2 tx_idx @ t) = Some v
           \<Longrightarrow> length v = 8 \<Longrightarrow> db_utxo_lookup s tx_hash tx_idx = Inr (h, le_int v)"
proof -
  from i have p: "pack_le 2 tx_idx = Inr (le_bytes 2 tx_idx)"
    by (simp add: pack_le_def)
  from o have "db_hash168_loop s tx_hash
      (kv_iterator (db s) (prefix_h @ take 4 tx_hash @ le_bytes 2 tx_idx))
        = Inr (Some h, Some t)"
    by (simp add: db_hash168_def)
  from db_hash168_loop_result[OF this] have "length h = 21" by auto
  then have n: "\<not> py_not (Some h)" by (auto simp: py_not_def)
  show "kv_get (db s) (prefix_u @ h @ le_bytes 2 tx_idx @ t) = None
         \<or> kv_get (db s) (prefix_u @ h @ le_bytes 2 tx_idx @ t) = Some []
           \<Longrightarrow> db_utxo_lookup s tx_hash tx_idx = Inl (DBError OneTableOnly)"
    using p o n by (auto simp: db_utxo_lookup_def Let_def py_not_def)
  show "kv_get (db s) (prefix_u @ h @ le_bytes 2 tx_idx @ t) = Some v
           \<Longrightarrow> length v = 8 \<Longrightarrow> db_utxo_lookup s tx_hash tx_idx = Inr (h, le_int v)"
    using p o n by (auto simp: db_utxo_lookup_def Let_def py_not_def unpack_le_def)
qed

section \<open>Key order and batches\<close>

lemma be_int_bound: "0 \<le> be_int bs \<and> be_int bs < 256 ^ length bs"
proof (induction bs)
  case Nil
  then show ?case by simp
next
  case (Cons b bs)
  define P :: int where "P = 256 ^ length bs"
  have "uint b < 2 ^ 8" using unsigned_less[of b, where ?'a = int] by simp
  then have u: "uint b \<le> 255" by simp
  have n: "0 \<le> uint b" by simp
  have p: "0 < P" by (simp add: P_def)
  from u p have le: "uint b * P \<le> 255 * P" by (simp add: mult_right_mono)
  from n p have ge: "0 \<le> uint b * P" by simp
  from Cons have ih: "0 \<le> be_int bs" "be_int bs < P" by (simp_all add: P_def)
  have "0 \<le> uint b * P + be_int bs" using ge ih by linarith
  moreover have "uint b * P + be_int bs < 256 * P" using le ih by linarith
  ultimately show ?case by (simp add: P_def)
qed

lemma be_int_mono:
  "length xs = length ys \<Longrightarrow> xs < ys \<Longrightarrow> be_int xs < be_int ys"
proof (induction xs arbitrary: ys)
  case Nil
  then show ?case by simp
next
  case (Cons a xs)
  then obtain b ys' where ys: "ys = b # ys'" by (cases ys) auto
  with Cons.prems have len: "length xs = length ys'" by simp
  from Cons.prems ys consider "a < b" | "a = b" "xs < ys'" by auto
  then show ?case
  proof cases
    case 1
    define P :: int where "P = 256 ^ length xs"
    from 1 have "uint a + 1 \<le> uint b" by (simp add: word_less_def)
    moreover have "0 \<le> P" by (simp add: P_def)
    ultimately have "(uint a + 1) * P \<le> uint b * P" by (rule mult_right_mono)
    then have m: "uint a * P + P \<le> uint b * P" by (simp add: algebra_simps)
    have x: "be_int xs < P" using be_int_bound[of xs] by (simp add: P_def)
    have y: "0 \<le> be_int ys'" using be_int_bound[of ys'] by simp
    from m x y have "uint a * P + be_int xs < uint b * P + be_int ys'" by linarith
    then show ?thesis using ys len by (simp add: P_def)
  next
    case 2
    with Cons.IH[OF len] ys len show ?thesis by simp
  qed
qed

lemma stale_undo_loop_takeWhile:
  "list_all (\<lambda>kv. 4 \<le> length (fst kv)) es \<Longrightarrow>
   stale_undo_loop cutoff es acc
     = Inr (acc @ map fst (takeWhile (\<lambda>kv. be_int (last_n 4 (fst kv)) \<le> cutoff) es))"
proof (induction es arbitrary: acc)
  case Nil
  then show ?case by simp
next
  case (Cons kv es)
  obtain k v where kv: "kv = (k, v)" by (cases kv)
  with Cons.prems have "unpack_be 4 (last_n 4 k) = Inr (be_int (last_n 4 k))"
    by (simp add: unpack_be_def last_n_def)
  with Cons kv show ?case by simp
qed

lemma excess_history_loop_filter:
  "list_all (\<lambda>kv. 2 \<le> length (fst kv)) es \<Longrightarrow>
   excess_history_loop ufc es acc
     = Inr (acc @ map fst (filter (\<lambda>kv. ufc < (be_int (last_n 2 (fst kv)))) es))"
proof (induction es arbitrary: acc)
  case Nil
  then show ?case by simp
next
  case (Cons kv es)
  obtain k v where kv: "kv = (k, v)" by (cases kv)
  with Cons.prems have "unpack_be 2 (last_n 2 k) = Inr (be_int (last_n 2 k))"
    by (simp add: unpack_be_def last_n_def)
  with Cons kv show ?case by simp
qed

lemma takeWhile_sorted_complete:
  "sorted_wrt (\<lambda>a b. f a < f b) es \<Longrightarrow> x \<in> set es \<Longrightarrow> f x \<le> (c::int) \<Longrightarrow>
   x \<in> set (takeWhile (\<lambda>y. f y \<le> c) es)"
proof (induction es)
  case Nil
  then show ?case by simp
next
  case (Cons y ys)
  show ?case
  proof (cases "f y \<le> c")
    case True
    with Cons show ?thesis by auto
  next
    case False
    with Cons.prems show ?thesis by auto
  qed
qed

lemma kv_get_put: "kv_get (kv_put k v st) k' = (if k' = k then Some v else kv_get st k')"
  by (induction st) (auto simp: kv_get_def)

lemma kv_get_delete: "kv_get (kv_delete k st) k' = (if k' = k then None else kv_get st k')"
  by (induction st) (auto simp: kv_get_def kv_delete_def)

lemma kv_get_deletes:
  "kv_get (foldl apply_batch_op st (map Delete ks)) k
     = (if k \<in> set ks then None else kv_get st k)"
  by (induction ks arbitrary: st) (auto simp: kv_get_delete)

lemma kv_get_clean_batch:
  "kv_get (write_batch st (map Delete hk @ map Delete uk @ [Put sk v])) k
     = (if k = sk then Some v
        else if k \<in> set hk \<or> k \<in> set uk then None else kv_get st k)"
proof -
  have "map Delete hk @ map Delete uk @ [Put sk v] = map Delete (hk @ uk) @ [Put sk v]"
    by simp
  then show ?thesis
    by (simp only: write_batch_def foldl_append foldl.simps apply_batch_op.simps
        kv_get_put kv_get_deletes set_append Un_iff)
qed

lemma undo_keys_sorted:
  assumes srt: "sorted_wrt (<) (map fst st)"
    and wf: "list_all (\<lambda>kv. length (fst kv) = 5) (kv_iterator st prefix_U)"
  shows "sorted_wrt (\<lambda>a b. be_int (last_n 4 (fst a)) < (be_int (last_n 4 (fst b))))
           (kv_iterator st prefix_U)"
proof -
  have s1: "sorted_wrt (\<lambda>a b. fst a < fst b) st"
    using srt by (simp add: sorted_wrt_map)
  have s2: "sorted_wrt (\<lambda>a b. fst a < fst b) (kv_iterator st prefix_U)"
    unfolding kv_iterator_def by (rule sorted_wrt_filter[OF s1])
  have step: "be_int (last_n 4 (fst a)) < (be_int (last_n 4 (fst b)))"
    if a: "a \<in> set (kv_iterator st prefix_U)" and b: "b \<in> set (kv_iterator st prefix_U)"
      and lt: "fst a < fst b" for a b
  proof -
    have key: "\<exists>t. fst x = 0x55 # t \<and> length t = 4 \<and> last_n 4 (fst x) = t"
      if "x \<in> set (kv_iterator st prefix_U)" for x
    proof -
      from that wf have l: "length (fst x) = 5" by (simp add: list_all_iff)
      from that have "starts_with prefix_U (fst x)" by (simp add: kv_iterator_def)
      with l obtain t where "fst x = 0x55 # t"
        by (cases "fst x") (auto simp: starts_with_def prefix_U_def)
      with l show ?thesis by (auto simp: last_n_def)
    qed
    from key[OF a] obtain ta where ta: "fst a = 0x55 # ta" "length ta = 4" "last_n 4 (fst a) = ta"
      by blast
    from key[OF b] obtain tb where tb: "fst b = 0x55 # tb" "length tb = 4" "last_n 4 (fst b) = tb"
      by blast
    from lt ta tb have "ta < tb" by simp
    with be_int_mono[of ta tb] ta tb show ?thesis by simp
  qed
  show ?thesis
    by (rule sorted_wrt_mono_rel[OF _ s2]) (use step in blast)
qed

section \<open>Reading the state record\<close>

lemma py_getitem_missing: "map_of d (PyStr k) = None \<Longrightarrow> py_getitem d k = Inl KeyError"
  by (simp add: py_getitem_def)

lemma py_getitem_error: "py_getitem d k = Inl err \<Longrightarrow> err = KeyError"
  by (auto simp: py_getitem_def split: option.splits)

lemma load_fields_missing:
  assumes "k \<in> set [''height'', ''tx_count'', ''tip'', ''flush_count'',
                     ''utxo_flush_count'', ''wall_time'', ''first_sync'']"
    and "map_of d (PyStr k) = None"
  shows "load_fields d ver = Inl KeyError"
proof -
  from assms have "py_getitem d k = Inl KeyError" by (simp add: py_getitem_missing)
  with assms(1) show ?thesis
    by (auto simp: load_fields_def split: sum.splits dest: py_getitem_error)
qed

lemma read_state_parsed:
  assumes "\<not> db_is_new s" "kv_get (db s) state_key = Some raw" "raw \<noteq> []"
    "literal_eval raw = Inr (PyDict d)"
    "py_getitem d ''db_version'' = Inr ver" "py_in_ints ver DB_VERSIONS"
    "py_getitem d ''genesis'' = Inr (PyStr (GENESIS_HASH e))"
  shows "read_state literal_eval e s
     = (case load_fields d ver of Inl err \<Rightarrow> Inl err | Inr l \<Rightarrow> check_flush_counts l)"
  using assms by (simp add: read_state_def)

lemma read_state_not_dict:
  assumes "\<not> db_is_new s"
    and "kv_get (db s) state_key = None \<or> kv_get (db s) state_key = Some []
         \<or> (\<exists>raw v. kv_get (db s) state_key = Some raw \<and> raw \<noteq> []
               \<and> literal_eval raw = Inr v \<and> (\<forall>d. v \<noteq> PyDict d))"
  shows "read_state literal_eval e s = Inl (DBError FailedReadingState)"
  using assms(2)
proof (elim disjE exE conjE)
  assume "kv_get (db s) state_key = None"
  with assms(1) show ?thesis by (simp add: read_state_def)
next
  assume "kv_get (db s) state_key = Some []"
  with assms(1) show ?thesis by (simp add: read_state_def)
next
  fix raw v
  assume "kv_get (db s) state_key = Some raw" "raw \<noteq> []"
    "literal_eval raw = Inr v" "\<forall>d. v \<noteq> PyDict d"
  with assms(1) show ?thesis by (cases v) (simp_all add: read_state_def)
qed

lemma read_state_genesis_mismatch:
  assumes "\<not> db_is_new s" "kv_get (db s) state_key = Some raw" "raw \<noteq> []"
    "literal_eval raw = Inr (PyDict d)"
    "map_of d (PyStr ''db_version'') = Some ver" "py_in_ints ver DB_VERSIONS"
    "map_of d (PyStr ''genesis'') = Some g" "g \<noteq> PyStr (GENESIS_HASH e)"
  shows "read_state literal_eval e s
     = (case map_of d (PyStr ''genesis_hash'') of
          None \<Rightarrow> Inl KeyError
        | Some _ \<Rightarrow> Inl (DBError GenesisMismatch))"
  using assms by (simp add: read_state_def py_getitem_def split: option.splits)

lemma read_state_stored:
  assumes new: "\<not> db_is_new s"
    and raw: "kv_get (db s) state_key = Some raw" "raw \<noteq> []"
    and ev: "literal_eval raw = Inr v"
  shows "((\<forall>d. v \<noteq> PyDict d) \<longrightarrow>
            read_state literal_eval e s = Inl (DBError FailedReadingState))
    \<and> (v = PyDict d \<and> map_of d (PyStr ''db_version'') = None \<longrightarrow>
            read_state literal_eval e s = Inl KeyError)
    \<and> (v = PyDict d \<and> map_of d (PyStr ''db_version'') = Some ver
          \<and> \<not> py_in_ints ver DB_VERSIONS \<longrightarrow>
            read_state literal_eval e s = Inl (DBError UnhandledVersion))
    \<and> (v = PyDict d \<and> map_of d (PyStr ''db_version'') = Some ver
          \<and> py_in_ints ver DB_VERSIONS \<and> map_of d (PyStr ''genesis'') = None \<longrightarrow>
            read_state literal_eval e s = Inl KeyError)
    \<and> (v = PyDict d \<and> map_of d (PyStr ''db_version'') = Some ver
          \<and> py_in_ints ver DB_VERSIONS
          \<and> map_of d (PyStr ''genesis'') = Some (PyStr (GENESIS_HASH e))
          \<and> (\<exists>k \<in> set [''height'', ''tx_count'', ''tip'', ''flush_count'',
                          ''utxo_flush_count'', ''wall_time'', ''first_sync''].
                map_of d (PyStr k) = None) \<longrightarrow>
            read_state literal_eval e s = Inl KeyError)
    \<and> (v = PyDict d \<and> map_of d (PyStr ''db_version'') = Some ver
          \<and> py_in_ints ver DB_VERSIONS
          \<and> map_of d (PyStr ''genesis'') = Some (PyStr (GENESIS_HASH e))
          \<and> map_of d (PyStr ''height'') = Some height
          \<and> map_of d (PyStr ''tx_count'') = Some tx_count
          \<and> map_of d (PyStr ''tip'') = Some tip
          \<and> map_of d (PyStr ''flush_count'') = Some (PyInt fc)
          \<and> map_of d (PyStr ''utxo_flush_count'') = Some (PyInt ufc)
          \<and> map_of d (PyStr ''wall_time'') = Some wt
          \<and> map_of d (PyStr ''first_sync'') = Some fs \<longrightarrow>
            read_state literal_eval e s
              = (if fc < ufc then Inl (DBError FlushCountCorrupt)
                 else Inr \<lparr>ld_height = height, ld_tx_count = tx_count, ld_tip = tip,
                          ld_version = ver, ld_flush_count = PyInt fc,
                          ld_utxo_flush_count = PyInt ufc, ld_wall_time = wt,
                          ld_first_sync = fs\<rparr>))"
proof (intro conjI impI)
  assume "\<forall>d. v \<noteq> PyDict d"
  with new raw ev show "read_state literal_eval e s = Inl (DBError FailedReadingState)"
    by (intro read_state_not_dict) auto
next
  assume "v = PyDict d \<and> map_of d (PyStr ''db_version'') = None"
  with new raw ev show "read_state literal_eval e s = Inl KeyError"
    by (simp add: read_state_def py_getitem_def)
next
  assume "v = PyDict d \<and> map_of d (PyStr ''db_version'') = Some ver
          \<and> \<not> py_in_ints ver DB_VERSIONS"
  with new raw ev show "read_state literal_eval e s = Inl (DBError UnhandledVersion)"
    by (simp add: read_state_def py_getitem_def)
next
  assume "v = PyDict d \<and> map_of d (PyStr ''db_version'') = Some ver
          \<and> py_in_ints ver DB_VERSIONS \<and> map_of d (PyStr ''genesis'') = None"
  with new raw ev show "read_state literal_eval e s = Inl KeyError"
    by (simp add: read_state_def py_getitem_def)
next
  assume a: "v = PyDict d \<and> map_of d (PyStr ''db_version'') = Some ver
          \<and> py_in_ints ver DB_VERSIONS
          \<and> map_of d (PyStr ''genesis'') = Some (PyStr (GENESIS_HASH e))
          \<and> (\<exists>k \<in> set [''height'', ''tx_count'', ''tip'', ''flush_count'',
                          ''utxo_flush_count'', ''wall_time'', ''first_sync''].
                map_of d (PyStr k) = None)"
  then obtain k where "k \<in> set [''height'', ''tx_count'', ''tip'', ''flush_count'',
                          ''utxo_flush_count'', ''wall_time'', ''first_sync'']"
    "map_of d (PyStr k) = None" by blast
  then have "load_fields d ver = Inl KeyError" by (rule load_fields_missing)
  moreover have "read_state literal_eval e s
     = (case load_fields d ver of Inl err \<Rightarrow> Inl err | Inr l \<Rightarrow> check_flush_counts l)"
    using new raw ev a by (intro read_state_parsed) (simp_all add: py_getitem_def)
  ultimately show "read_state literal_eval e s = Inl KeyError" by simp
next
  assume a: "v = PyDict d \<and> map_of d (PyStr ''db_version'') = Some ver
          \<and> py_in_ints ver DB_VERSIONS
          \<and> map_of d (PyStr ''genesis'') = Some (PyStr (GENESIS_HASH e))
          \<and> map_of d (PyStr ''height'') = Some height
          \<and> map_of d (PyStr ''tx_count'') = Some tx_count
          \<and> map_of d (PyStr ''tip'') = Some tip
          \<and> map_of d (PyStr ''flush_count'') = Some (PyInt fc)
          \<and> map_of d (PyStr ''utxo_flush_count'') = Some (PyInt ufc)
          \<and> map_of d (PyStr ''wall_time'') = Some wt
          \<and> map_of d (PyStr ''first_sync'') = Some fs"
  have "read_state literal_eval e s
     = (case load_fields d ver of Inl err \<Rightarrow> Inl err | Inr l \<Rightarrow> check_flush_counts l)"
    using new raw ev a by (intro read_state_parsed) (simp_all add: py_getitem_def)
  moreover have "load_fields d ver = Inr \<lparr>ld_height = height, ld_tx_count = tx_count,
       ld_tip = tip, ld_version = ver, ld_flush_count = PyInt fc,
       ld_utxo_flush_count = PyInt ufc, ld_wall_time = wt, ld_first_sync = fs\<rparr>"
    using a by (simp add: load_fields_def py_getitem_def)
  ultimately show "read_state literal_eval e s
              = (if fc < ufc then Inl (DBError FlushCountCorrupt)
                 else Inr \<lparr>ld_height = height, ld_tx_count = tx_count, ld_tip = tip,
                          ld_version = ver, ld_flush_count = PyInt fc,
                          ld_utxo_flush_count = PyInt ufc, ld_wall_time = wt,
                          ld_first_sync = fs\<rparr>)"
    by (simp add: check_flush_counts_def)
qed

section \<open>Shards written by fs_update\<close>

lemma write_hashes_keeps_shards:
  "files k \<noteq> None \<Longrightarrow> write_hashes files hashes cursor file_pos k \<noteq> None"
proof (induction files hashes cursor file_pos rule: write_hashes.induct)
  case (1 files hashes cursor file_pos)
  show ?case
  proof (cases "cursor < int (length hashes)")
    case False
    then show ?thesis using "1.prems" by (subst write_hashes.simps) simp
  next
    case True
    define file_num where "file_num = file_pos div tx_hash_file_size"
    define offset where "offset = file_pos mod tx_hash_file_size"
    define size where "size = min (int (length hashes) - cursor) (tx_hash_file_size - offset)"
    define f where "f = (case files file_num of None \<Rightarrow> [] | Some old \<Rightarrow> old)"
    define files' where "files' = files(file_num \<mapsto>
        file_write f (nat offset) (take (nat size) (drop (nat cursor) hashes)))"
    have k: "files' k \<noteq> None" using "1.prems" by (simp add: files'_def)
    have eq: "write_hashes files hashes cursor file_pos
        = write_hashes files' hashes (cursor + size) (file_pos + size)"
      using True
      by (subst write_hashes.simps)
        (simp add: Let_def file_num_def offset_def size_def f_def files'_def)
    from "1.IH"[OF True file_num_def offset_def size_def f_def, folded files'_def, OF k]
    show ?thesis unfolding eq .
  qed
qed

lemma write_hashes_creates_shards:
  "0 \<le> file_pos \<Longrightarrow> file_pos \<le> p \<Longrightarrow> p < file_pos + (int (length hashes) - cursor) \<Longrightarrow>
   write_hashes files hashes cursor file_pos (p div tx_hash_file_size) \<noteq> None"
proof (induction files hashes cursor file_pos rule: write_hashes.induct)
  case (1 files hashes cursor file_pos)
  from "1.prems" have True: "cursor < int (length hashes)" by simp
  define file_num where "file_num = file_pos div tx_hash_file_size"
  define offset where "offset = file_pos mod tx_hash_file_size"
  define size where "size = min (int (length hashes) - cursor) (tx_hash_file_size - offset)"
  define f where "f = (case files file_num of None \<Rightarrow> [] | Some old \<Rightarrow> old)"
  define files' where "files' = files(file_num \<mapsto>
      file_write f (nat offset) (take (nat size) (drop (nat cursor) hashes)))"
  have eq: "write_hashes files hashes cursor file_pos
      = write_hashes files' hashes (cursor + size) (file_pos + size)"
    using True
    by (subst write_hashes.simps)
      (simp add: Let_def file_num_def offset_def size_def f_def files'_def)
  have S: "0 < tx_hash_file_size" by (simp add: tx_hash_file_size_def)
  have off: "0 \<le> offset" "offset < tx_hash_file_size"
    using S by (simp_all add: offset_def)
  have sz: "0 < size" "size \<le> tx_hash_file_size - offset"
    using True off by (simp_all add: size_def)
  show ?case
  proof (cases "p < file_pos + size")
    case near: True
    have pos: "file_pos = tx_hash_file_size * file_num + offset"
      by (simp add: file_num_def offset_def)
    define r where "r = p - tx_hash_file_size * file_num"
    have "p = tx_hash_file_size * file_num + r" by (simp add: r_def)
    moreover have "0 \<le> r" using "1.prems"(2) pos off by (simp add: r_def)
    moreover have "r < tx_hash_file_size" using near pos sz by (simp add: r_def)
    ultimately have "p div tx_hash_file_size = file_num" by (rule int_div_pos_eq)
    then have "files' (p div tx_hash_file_size) \<noteq> None" by (simp add: files'_def)
    then show ?thesis unfolding eq by (rule write_hashes_keeps_shards)
  next
    case False
    then have a: "file_pos + size \<le> p" by simp
    have b: "0 \<le> file_pos + size" using "1.prems"(1) sz by simp
    have c: "p < file_pos + size + (int (length hashes) - (cursor + size))"
      using "1.prems"(3) by simp
    from "1.IH"[OF True file_num_def offset_def size_def f_def, folded files'_def, OF b a c]
    show ?thesis unfolding eq .
  qed
qed

lemma fs_update_creates_shards:
  assumes u: "fs_update e s fs_height hdrs block_tx_hashes = Inr s'"
    and lo: "(if fs_height \<ge> 0 then tx_counts s ! nat fs_height else 0) \<le> tx_num"
    and hi: "tx_num < (if tx_counts s \<noteq> [] then last (tx_counts s) else 0)"
    and nn: "0 \<le> (if fs_height \<ge> 0 then tx_counts s ! nat fs_height else 0)"
  shows "hash_files s' (tx_num * 32 div tx_hash_file_size) \<noteq> None"
proof -
  define prior where "prior = (if fs_height \<ge> 0 then tx_counts s ! nat fs_height else 0)"
  define cur where "cur = (if tx_counts s \<noteq> [] then last (tx_counts s) else 0)"
  define hashes where "hashes = concat (concat block_tx_hashes)"
  from u have h: "hash_files s' = write_hashes (hash_files s) hashes 0 (prior * 32)"
    and m: "length hashes mod 32 = 0" and d: "int (length hashes div 32) = cur - prior"
    by (auto simp: fs_update_def Let_def prior_def cur_def hashes_def split: if_splits)
  from m d have len: "int (length hashes) = (cur - prior) * 32"
    by (metis mult.commute mod_0_imp_dvd dvd_div_mult_self of_nat_mult of_nat_numeral)
  have "write_hashes (hash_files s) hashes 0 (prior * 32) (tx_num * 32 div tx_hash_file_size)
      \<noteq> None"
  proof (rule write_hashes_creates_shards)
    show "0 \<le> prior * 32" using nn by (simp add: prior_def)
    show "prior * 32 \<le> tx_num * 32" using lo by (simp add: prior_def)
    show "tx_num * 32 < prior * 32 + (int (length hashes) - 0)"
      using hi len by (simp add: cur_def)
  qed
  with h show ?thesis by simp
qed

section \<open>The claims\<close>

subsection \<open>C1: recovery and excess history\<close>

text \<open>
  C1 says that recovery deletes the history keys whose flush-batch id exceeds the
  \<open>utxo_flush_count\<close> the database was opened with. \<open>clean_db\<close> assigns
  \<open>utxo_flush_count = flush_count\<close> first and calls \<open>excess_history_keys\<close> afterwards,
  which compares each flush id with the raised counter. Opened with \<open>flush_count = 2\<close>
  and \<open>utxo_flush_count = 1\<close>, the store keeps the key of batch 2 beside the key of
  batch 1, gains the state record, and \<open>utxo_flush_count\<close> becomes 2.
\<close>

theorem clean_db_keeps_unflushed_history:
  "map_sum id db (clean_db sample_repr sample_env unclean_state)
     = Inr [(prefix_H @ addr_a @ [0, 1], [5, 0, 0, 0]),
            (prefix_H @ addr_a @ [0, 2], [9, 0, 0, 0]),
            (state_key, [0x7B, 0x7D])]
   \<and> map_sum id utxo_flush_count (clean_db sample_repr sample_env unclean_state) = Inr 2"
  by code_simp

subsection \<open>C2: headers written and read back\<close>

text \<open>
  C2: a header appended by \<open>fs_update\<close> is read back by \<open>read_headers(h, 1)\<close>, byte for
  byte. The file holds the headers \<open>hs\<close> of the heights up to \<open>fs_height\<close>, every header
  has \<open>HEADER_LEN\<close> bytes, and \<open>fs_update\<close> succeeds with the new headers \<open>hdrs\<close>. Then
  the file is the concatenation of \<open>hs @ hdrs\<close>, and once the writer has set the height
  to \<open>new_height\<close> (\<open>fs_update\<close> leaves \<open>db_height\<close> alone), every height \<open>h\<close> from 0 to
  \<open>new_height\<close> that has a header reads back as that header: both sides use the offset
  \<open>h * HEADER_LEN\<close>.
\<close>

theorem fs_update_read_headers_roundtrip:
  assumes "headers_file s = concat hs"
    and "list_all (\<lambda>h. length h = HEADER_LEN e) (hs @ hdrs)"
    and "int (length hs) = fs_height + 1"
    and "fs_update e s fs_height hdrs block_tx_hashes = Inr s'"
    and "0 \<le> h" and "h \<le> new_height" and "nat h < length (hs @ hdrs)"
  shows "headers_file s' = concat (hs @ hdrs)
     \<and> read_headers e (s'\<lparr>db_height := new_height\<rparr>) h 1 = Inr ((hs @ hdrs) ! nat h)"
proof -
  from assms(2) have l: "list_all (\<lambda>h. length h = HEADER_LEN e) hs" by simp
  have f: "headers_file s' = concat (hs @ hdrs)"
    by (rule fs_update_headers_file[OF assms(1) l assms(3) assms(4)])
  have "read_headers e (s'\<lparr>db_height := new_height\<rparr>) h 1 = Inr ((hs @ hdrs) ! nat h)"
    by (rule read_one_header[OF _ assms(2)]) (use f assms(5-7) in simp_all)
  with f show ?thesis by simp
qed

theorem fs_update_read_headers_roundtrip_witness:
  "read_headers sample_env
     ((projr (fs_update sample_env unwritten_state (- 1) [header_a, header_b]
                [[tx_0], [tx_1, tx_2]]))\<lparr>db_height := 1\<rparr>) 1 1 = Inr header_b"
proof -
  have "isl (fs_update sample_env unwritten_state (- 1) [header_a, header_b]
     [[tx_0], [tx_1, tx_2]]) = False"
    by code_simp
  then have u: "fs_update sample_env unwritten_state (- 1) [header_a, header_b]
      [[tx_0], [tx_1, tx_2]]
    = Inr (projr (fs_update sample_env unwritten_state (- 1) [header_a, header_b]
      [[tx_0], [tx_1, tx_2]]))"
    by (cases "fs_update sample_env unwritten_state (- 1) [header_a, header_b]
      [[tx_0], [tx_1, tx_2]]") simp_all
  have h1: "headers_file unwritten_state = concat []" by code_simp
  have h2: "list_all (\<lambda>h. length h = HEADER_LEN sample_env) ([] @ [header_a, header_b])"
    by code_simp
  have h3: "int (length ([] :: bytes list)) = - 1 + 1" by simp
  from fs_update_read_headers_roundtrip[OF h1 h2 h3 u, of 1 1]
  show ?thesis by simp
qed

subsection \<open>C3: recovery and aged undo information\<close>

text \<open>
  C3: after \<open>clean_db\<close> no undo key with height at most \<open>db_height - reorg_limit\<close> is in
  the store, and the undo keys above that height keep their values. The store is in
  ascending key order, the keys under \<open>U\<close> are undo keys (\<open>U\<close> and four bytes of height),
  and no history key is the bare prefix, so that \<open>clean_db\<close> returns.
\<close>

theorem clean_db_prunes_undo:
  assumes srt: "sorted_wrt (<) (map fst (db s))"
    and wf: "list_all (\<lambda>kv. length (fst kv) = 5) (kv_iterator (db s) prefix_U)"
    and hwf: "list_all (\<lambda>kv. 2 \<le> length (fst kv)) (kv_iterator (db s) prefix_H)"
  shows "\<exists>s'. clean_db py_repr e s = Inr s'
           \<and> (\<forall>k. length k = 5 \<and> starts_with prefix_U k \<longrightarrow>
                 kv_get (db s') k
                   = (if be_int (last_n 4 k) \<le> db_height s - reorg_limit e then None
                      else kv_get (db s) k))"
proof -
  define s1 where "s1 = (if flush_count s > utxo_flush_count s
                then s\<lparr>utxo_flush_count := flush_count s\<rparr> else s)"
  define cutoff where "cutoff = db_height s - reorg_limit e"
  define P where "P = (\<lambda>kv :: bytes \<times> bytes. be_int (last_n 4 (fst kv)) \<le> cutoff)"
  define es where "es = kv_iterator (db s) prefix_U"
  define uk where "uk = map fst (takeWhile P es)"
  have s1: "db s1 = db s" "db_height s1 = db_height s" by (simp_all add: s1_def)
  obtain hk where hk: "(if flush_count s > utxo_flush_count s
               then excess_history_keys s1 else Inr []) = Inr hk"
    and hk_sub: "set hk \<subseteq> fst ` set (kv_iterator (db s) prefix_H)"
  proof (cases "flush_count s > utxo_flush_count s")
    case True
    have "excess_history_keys s1 = Inr (map fst (filter
        (\<lambda>kv. utxo_flush_count s1 < (be_int (last_n 2 (fst kv))))
        (kv_iterator (db s) prefix_H)))"
      using excess_history_loop_filter[OF hwf, of "utxo_flush_count s1" "[]"]
      by (simp add: excess_history_keys_def s1)
    with True that show ?thesis by auto
  next
    case False
    with that[of "[]"] show ?thesis by simp
  qed
  have wf4: "list_all (\<lambda>kv. 4 \<le> length (fst kv)) es"
    using wf by (simp add: es_def list_all_iff)
  have uk: "stale_undo_keys e s1 = Inr uk"
    using stale_undo_loop_takeWhile[OF wf4, of cutoff "[]"]
    by (simp add: stale_undo_keys_def s1 es_def uk_def cutoff_def P_def)
  define s' where "s' = s1\<lparr>db := write_batch (db s1)
      (write_state py_repr e s1 (map Delete hk @ map Delete uk))\<rparr>"
  have run: "clean_db py_repr e s = Inr s'"
    using hk uk unfolding clean_db_def s1_def[symmetric] Let_def s'_def by simp
  have get: "kv_get (db s') k
      = (if k = state_key then Some (py_repr (state_dict e s1))
         else if k \<in> set hk \<or> k \<in> set uk then None else kv_get (db s) k)" for k
    using kv_get_clean_batch[of "db s" hk uk state_key "py_repr (state_dict e s1)" k]
    by (simp add: s'_def write_state_def s1)
  have srt_es: "sorted_wrt (\<lambda>a b. be_int (last_n 4 (fst a)) < (be_int (last_n 4 (fst b)))) es"
    unfolding es_def by (rule undo_keys_sorted[OF srt wf])
  have main: "kv_get (db s') k = (if be_int (last_n 4 k) \<le> cutoff then None
                      else kv_get (db s) k)"
    if k: "length k = 5" "starts_with prefix_U k" for k
  proof -
    from k obtain t where t: "k = 0x55 # t"
      by (cases k) (auto simp: starts_with_def prefix_U_def)
    then have nst: "k \<noteq> state_key" by (simp add: state_key_def)
    have nhk: "k \<notin> set hk"
    proof
      assume "k \<in> set hk"
      with hk_sub have "starts_with prefix_H k" by (auto simp: kv_iterator_def)
      with t show False by (simp add: starts_with_def prefix_H_def)
    qed
    show ?thesis
    proof (cases "be_int (last_n 4 k) \<le> cutoff")
      case True
      show ?thesis
      proof (cases "kv_get (db s) k")
        case None
        with get[of k] nst True show ?thesis by simp
      next
        case (Some v)
        then have "(k, v) \<in> set (db s)" by (simp add: kv_get_def map_of_SomeD)
        with k have "(k, v) \<in> set es" by (simp add: es_def kv_iterator_def)
        from takeWhile_sorted_complete[OF srt_es this, of cutoff] True
        have "(k, v) \<in> set (takeWhile P es)" by (simp add: P_def)
        then have "k \<in> set uk" by (force simp: uk_def)
        with get[of k] nst True show ?thesis by simp
      qed
    next
      case False
      have "k \<notin> set uk"
      proof
        assume "k \<in> set uk"
        then obtain v where "(k, v) \<in> set (takeWhile P es)" by (auto simp: uk_def)
        then have "P (k, v)" by (rule set_takeWhileD[THEN conjunct2])
        with False show False by (simp add: P_def)
      qed
      with get[of k] nst nhk False show ?thesis by simp
    qed
  qed
  show ?thesis using run main unfolding cutoff_def by blast
qed

theorem clean_db_prunes_undo_witness:
  "\<exists>s'. clean_db sample_repr sample_env aged_state = Inr s'
     \<and> kv_get (db s') (prefix_U @ [0, 0, 0, 2]) = None
     \<and> kv_get (db s') (prefix_U @ [0, 0, 0, 3]) = None
     \<and> kv_get (db s') (prefix_U @ [0, 0, 0, 4]) = Some [3]
     \<and> kv_get (db s') (prefix_U @ [0, 0, 0, 5]) = Some [4]"
proof -
  have h1: "sorted_wrt (<) (map fst (db aged_state))" by code_simp
  have h2: "list_all (\<lambda>kv. length (fst kv) = 5) (kv_iterator (db aged_state) prefix_U)"
    by code_simp
  have h3: "list_all (\<lambda>kv. 2 \<le> length (fst kv)) (kv_iterator (db aged_state) prefix_H)"
    by code_simp
  from clean_db_prunes_undo[OF h1 h2 h3, of sample_repr sample_env]
  obtain s' where run: "clean_db sample_repr sample_env aged_state = Inr s'"
    and get: "\<And>k. length k = 5 \<and> starts_with prefix_U k \<Longrightarrow>
       kv_get (db s') k
         = (if (be_int (last_n 4 k)) \<le> db_height aged_state - reorg_limit sample_env
            then None else kv_get (db aged_state) k)"
    by blast
  have k2: "length (prefix_U @ [0, 0, 0, 2]) = 5 \<and> starts_with prefix_U (prefix_U @ [0, 0, 0, 2])"
    by code_simp
  have k3: "length (prefix_U @ [0, 0, 0, 3]) = 5 \<and> starts_with prefix_U (prefix_U @ [0, 0, 0, 3])"
    by code_simp
  have k4: "length (prefix_U @ [0, 0, 0, 4]) = 5 \<and> starts_with prefix_U (prefix_U @ [0, 0, 0, 4])"
    by code_simp
  have k5: "length (prefix_U @ [0, 0, 0, 5]) = 5 \<and> starts_with prefix_U (prefix_U @ [0, 0, 0, 5])"
    by code_simp
  have v2: "(if (be_int (last_n 4 (prefix_U @ [0, 0, 0, 2])))
                \<le> db_height aged_state - reorg_limit sample_env
            then None else kv_get (db aged_state) (prefix_U @ [0, 0, 0, 2])) = None"
    by code_simp
  have v3: "(if (be_int (last_n 4 (prefix_U @ [0, 0, 0, 3])))
                \<le> db_height aged_state - reorg_limit sample_env
            then None else kv_get (db aged_state) (prefix_U @ [0, 0, 0, 3])) = None"
    by code_simp
  have v4: "(if (be_int (last_n 4 (prefix_U @ [0, 0, 0, 4])))
                \<le> db_height aged_state - reorg_limit sample_env
            then None else kv_get (db aged_state) (prefix_U @ [0, 0, 0, 4])) = Some [3]"
    by code_simp
  have v5: "(if (be_int (last_n 4 (prefix_U @ [0, 0, 0, 5])))
                \<le> db_height aged_state - reorg_limit sample_env
            then None else kv_get (db aged_state) (prefix_U @ [0, 0, 0, 5])) = Some [4]"
    by code_simp
  have g2: "kv_get (db s') (prefix_U @ [0, 0, 0, 2]) = None"
    unfolding get[OF k2] by (rule v2)
  have g3: "kv_get (db s') (prefix_U @ [0, 0, 0, 3]) = None"
    unfolding get[OF k3] by (rule v3)
  have g4: "kv_get (db s') (prefix_U @ [0, 0, 0, 4]) = Some [3]"
    unfolding get[OF k4] by (rule v4)
  have g5: "kv_get (db s') (prefix_U @ [0, 0, 0, 5]) = Some [4]"
    unfolding get[OF k5] by (rule v5)
  from run g2 g3 g4 g5 show ?thesis by blast
qed

subsection \<open>C4: errors of read_state\<close>

text \<open>
  C4, amended. For a record stored under \<open>state\<close> on a database that is not new,
  \<open>read_state\<close> raises \<open>DBError\<close> when nothing or an empty value is stored, when
  the value read is not a dictionary, when
  \<open>db_version\<close> is present and not among \<open>DB_VERSIONS\<close>, and when, with every field
  present and version and genesis accepted, the integer \<open>utxo_flush_count\<close> exceeds
  \<open>flush_count\<close>. A record without \<open>db_version\<close>, or with the version accepted and
  without \<open>genesis\<close>, or with version and genesis accepted and without one of the seven
  later fields, raises \<open>KeyError\<close>. With all nine fields
  present, the version recognised, the genesis hash that of the coin and
  \<open>utxo_flush_count \<le> flush_count\<close>, it stores the fields as they are, of whatever
  type, and returns.
\<close>

theorem read_state_contract:
  assumes "\<not> db_is_new s"
  shows "(kv_get (db s) state_key = None \<or> kv_get (db s) state_key = Some [] \<longrightarrow>
            read_state literal_eval e s = Inl (DBError FailedReadingState))
    \<and> (kv_get (db s) state_key = Some raw \<and> raw \<noteq> [] \<and> literal_eval raw = Inr v \<longrightarrow>
         ((\<forall>d. v \<noteq> PyDict d) \<longrightarrow>
            read_state literal_eval e s = Inl (DBError FailedReadingState))
       \<and> (v = PyDict d \<and> map_of d (PyStr ''db_version'') = None \<longrightarrow>
            read_state literal_eval e s = Inl KeyError)
       \<and> (v = PyDict d \<and> map_of d (PyStr ''db_version'') = Some ver
             \<and> \<not> py_in_ints ver DB_VERSIONS \<longrightarrow>
            read_state literal_eval e s = Inl (DBError UnhandledVersion))
       \<and> (v = PyDict d \<and> map_of d (PyStr ''db_version'') = Some ver
             \<and> py_in_ints ver DB_VERSIONS \<and> map_of d (PyStr ''genesis'') = None \<longrightarrow>
            read_state literal_eval e s = Inl KeyError)
       \<and> (v = PyDict d \<and> map_of d (PyStr ''db_version'') = Some ver
             \<and> py_in_ints ver DB_VERSIONS
             \<and> map_of d (PyStr ''genesis'') = Some (PyStr (GENESIS_HASH e))
             \<and> (\<exists>k \<in> set [''height'', ''tx_count'', ''tip'', ''flush_count'',
                             ''utxo_flush_count'', ''wall_time'', ''first_sync''].
                   map_of d (PyStr k) = None) \<longrightarrow>
            read_state literal_eval e s = Inl KeyError)
       \<and> (v = PyDict d \<and> map_of d (PyStr ''db_version'') = Some ver
             \<and> py_in_ints ver DB_VERSIONS
             \<and> map_of d (PyStr ''genesis'') = Some (PyStr (GENESIS_HASH e))
             \<and> map_of d (PyStr ''height'') = Some height
             \<and> map_of d (PyStr ''tx_count'') = Some tx_count
             \<and> map_of d (PyStr ''tip'') = Some tip
             \<and> map_of d (PyStr ''flush_count'') = Some (PyInt fc)
             \<and> map_of d (PyStr ''utxo_flush_count'') = Some (PyInt ufc)
             \<and> map_of d (PyStr ''wall_time'') = Some wt
             \<and> map_of d (PyStr ''first_sync'') = Some fs \<longrightarrow>
            read_state literal_eval e s
              = (if fc < ufc then Inl (DBError FlushCountCorrupt)
                 else Inr \<lparr>ld_height = height, ld_tx_count = tx_count, ld_tip = tip,
                          ld_version = ver, ld_flush_count = PyInt fc,
                          ld_utxo_flush_count = PyInt ufc, ld_wall_time = wt,
                          ld_first_sync = fs\<rparr>)))"
proof (intro conjI impI)
  assume "kv_get (db s) state_key = None \<or> kv_get (db s) state_key = Some []"
  with assms show "read_state literal_eval e s = Inl (DBError FailedReadingState)"
    by (intro read_state_not_dict) auto
next
  assume st: "kv_get (db s) state_key = Some raw \<and> raw \<noteq> [] \<and> literal_eval raw = Inr v"
  note c = read_state_stored[where literal_eval = literal_eval and e = e and d = d
      and ver = ver and height = height and tx_count = tx_count and tip = tip and fc = fc
      and ufc = ufc and wt = wt and fs = fs, OF assms st[THEN conjunct1]
      st[THEN conjunct2, THEN conjunct1] st[THEN conjunct2, THEN conjunct2]]
  {
    assume "\<forall>d. v \<noteq> PyDict d"
    with c show "read_state literal_eval e s = Inl (DBError FailedReadingState)" by blast
  next
    assume "v = PyDict d \<and> map_of d (PyStr ''db_version'') = None"
    with c show "read_state literal_eval e s = Inl KeyError" by blast
  next
    assume "v = PyDict d \<and> map_of d (PyStr ''db_version'') = Some ver
             \<and> \<not> py_in_ints ver DB_VERSIONS"
    with c show "read_state literal_eval e s = Inl (DBError UnhandledVersion)" by blast
  next
    assume "v = PyDict d \<and> map_of d (PyStr ''db_version'') = Some ver
             \<and> py_in_ints ver DB_VERSIONS \<and> map_of d (PyStr ''genesis'') = None"
    with c show "read_state literal_eval e s = Inl KeyError" by blast
  next
    assume "v = PyDict d \<and> map_of d (PyStr ''db_version'') = Some ver
             \<and> py_in_ints ver DB_VERSIONS
             \<and> map_of d (PyStr ''genesis'') = Some (PyStr (GENESIS_HASH e))
             \<and> (\<exists>k \<in> set [''height'', ''tx_count'', ''tip'', ''flush_count'',
                             ''utxo_flush_count'', ''wall_time'', ''first_sync''].
                   map_of d (PyStr k) = None)"
    with c show "read_state literal_eval e s = Inl KeyError" by blast
  next
    assume "v = PyDict d \<and> map_of d (PyStr ''db_version'') = Some ver
             \<and> py_in_ints ver DB_VERSIONS
             \<and> map_of d (PyStr ''genesis'') = Some (PyStr (GENESIS_HASH e))
             \<and> map_of d (PyStr ''height'') = Some height
             \<and> map_of d (PyStr ''tx_count'') = Some tx_count
             \<and> map_of d (PyStr ''tip'') = Some tip
             \<and> map_of d (PyStr ''flush_count'') = Some (PyInt fc)
             \<and> map_of d (PyStr ''utxo_flush_count'') = Some (PyInt ufc)
             \<and> map_of d (PyStr ''wall_time'') = Some wt
             \<and> map_of d (PyStr ''first_sync'') = Some fs"
    with c show "read_state literal_eval e s
              = (if fc < ufc then Inl (DBError FlushCountCorrupt)
                 else Inr \<lparr>ld_height = height, ld_tx_count = tx_count, ld_tip = tip,
                          ld_version = ver, ld_flush_count = PyInt fc,
                          ld_utxo_flush_count = PyInt ufc, ld_wall_time = wt,
                          ld_first_sync = fs\<rparr>)" by blast
  }
qed

theorem read_state_contract_witness:
  "read_state (eval_to (state_dict sample_env indexed_state)) sample_env stored_state
     = Inr \<lparr>ld_height = PyInt 1, ld_tx_count = PyInt 3, ld_tip = PyBytes (replicate 32 0),
            ld_version = PyInt 3, ld_flush_count = PyInt 1, ld_utxo_flush_count = PyInt 1,
            ld_wall_time = PyInt 0, ld_first_sync = PyBool True\<rparr>"
proof -
  define d where "d = [(PyStr ''genesis'', PyStr (GENESIS_HASH sample_env)),
      (PyStr ''height'', PyInt (db_height indexed_state)),
      (PyStr ''tx_count'', PyInt (db_tx_count indexed_state)),
      (PyStr ''tip'', PyBytes (db_tip indexed_state)),
      (PyStr ''flush_count'', PyInt (flush_count indexed_state)),
      (PyStr ''utxo_flush_count'', PyInt (utxo_flush_count indexed_state)),
      (PyStr ''wall_time'', PyInt (wall_time indexed_state)),
      (PyStr ''first_sync'', PyBool (first_sync indexed_state)),
      (PyStr ''db_version'', PyInt (db_version indexed_state))]"
  have h1: "\<not> db_is_new stored_state" by code_simp
  have h2: "kv_get (db stored_state) state_key = Some [0x7B, 0x7D]" by code_simp
  have h3: "[0x7B, 0x7D] \<noteq> ([] :: bytes)" by simp
  have h4: "eval_to (state_dict sample_env indexed_state) [0x7B, 0x7D]
      = Inr (state_dict sample_env indexed_state)"
    by (simp add: eval_to_def)
  have vals: "db_height indexed_state = 1" "db_tx_count indexed_state = 3"
    "db_tip indexed_state = replicate 32 0" "flush_count indexed_state = 1"
    "utxo_flush_count indexed_state = 1" "wall_time indexed_state = 0"
    "first_sync indexed_state = True" "db_version indexed_state = 3"
    by (simp_all add: indexed_state_def blank_state_def)
  have v: "py_in_ints (PyInt 3) DB_VERSIONS" by (simp add: py_in_ints_def DB_VERSIONS_def)
  from read_state_contract[where literal_eval = "eval_to (state_dict sample_env indexed_state)"
      and s = stored_state and raw = "[0x7B, 0x7D]" and e = sample_env
      and v = "state_dict sample_env indexed_state" and d = d
      and ver = "PyInt (db_version indexed_state)"
      and height = "PyInt (db_height indexed_state)"
      and tx_count = "PyInt (db_tx_count indexed_state)"
      and tip = "PyBytes (db_tip indexed_state)" and fc = "flush_count indexed_state"
      and ufc = "utxo_flush_count indexed_state" and wt = "PyInt (wall_time indexed_state)"
      and fs = "PyBool (first_sync indexed_state)", OF h1]
  show ?thesis using v h2 h3 h4 by (simp add: d_def state_dict_def vals)
qed

theorem read_state_missing_field_counterexample:
  "read_state (eval_to (PyDict [])) sample_env empty_record_state = Inl KeyError"
  by code_simp

subsection \<open>C5: transaction number to height\<close>




subsection \<open>C6: range check of read_headers\<close>

text \<open>
  C6: \<open>read_headers(start, count)\<close> fails exactly when \<open>start < 0\<close>, \<open>count < 0\<close> or
  \<open>start + count > db_height + 1\<close>, and then with the \<open>DBError\<close> that the headers are not
  on disk. Otherwise, when the file holds one \<open>HEADER_LEN\<close>-byte header for each height
  up to \<open>db_height\<close>, it returns the \<open>count\<close> headers from \<open>start\<close> on, concatenated in
  height order: \<open>count * HEADER_LEN\<close> bytes.
\<close>

theorem read_headers_contract:
  "(isl (read_headers e s start count)
      = (start < 0 \<or> count < 0 \<or> db_height s + 1 < start + count))
   \<and> (isl (read_headers e s start count) \<longrightarrow>
        read_headers e s start count = Inl (DBError HeadersNotOnDisk))
   \<and> (headers_file s = concat hs \<and> list_all (\<lambda>h. length h = HEADER_LEN e) hs
        \<and> int (length hs) = db_height s + 1 \<and> \<not> isl (read_headers e s start count) \<longrightarrow>
        read_headers e s start count = Inr (concat (take (nat count) (drop (nat start) hs)))
        \<and> length (concat (take (nat count) (drop (nat start) hs))) = nat count * HEADER_LEN e)"
  using read_headers_error_iff[of e s start count] read_headers_error_kind[of e s start count]
    read_headers_on_disk[of s hs e start count]
  by blast

theorem read_headers_contract_witness:
  "read_headers sample_env indexed_state 0 2 = Inr (header_a @ header_b)
   \<and> read_headers sample_env indexed_state 1 2 = Inl (DBError HeadersNotOnDisk)"
proof -
  have hgt: "db_height indexed_state = 1" by code_simp
  have h1: "headers_file indexed_state = concat [header_a, header_b]" by code_simp
  have h2: "list_all (\<lambda>h. length h = HEADER_LEN sample_env) [header_a, header_b]" by code_simp
  have h3: "int (length [header_a, header_b]) = db_height indexed_state + 1" by code_simp
  note a = read_headers_contract[of sample_env indexed_state 0 2 "[header_a, header_b]"]
  note b = read_headers_contract[of sample_env indexed_state 1 2 "[header_a, header_b]"]
  from a hgt have "\<not> isl (read_headers sample_env indexed_state 0 2)" by simp
  with a h1 h2 h3 have "read_headers sample_env indexed_state 0 2
      = Inr (concat (take (nat 2) (drop (nat 0) [header_a, header_b])))" by blast
  then have r1: "read_headers sample_env indexed_state 0 2 = Inr (header_a @ header_b)"
    by simp
  from b hgt have "isl (read_headers sample_env indexed_state 1 2)" by simp
  with b have r2: "read_headers sample_env indexed_state 1 2 = Inl (DBError HeadersNotOnDisk)"
    by blast
  from r1 r2 show ?thesis by simp
qed

subsection \<open>C7: errors of db_utxo_lookup\<close>

text \<open>
  C7: \<open>db_utxo_lookup\<close> raises \<open>MissingUTXOError\<close> exactly when the index packs into two
  bytes and the owner lookup \<open>db_hash168\<close> returns \<open>(None, None)\<close>. When the owner lookup
  succeeds and the \<open>u\<close> table has no value (or an empty one) under the key, the error is
  the \<open>DBError\<close> "in one table only". When the value is there, eight bytes long, the
  result is the owner with the value read as a little-endian integer.
\<close>

theorem db_utxo_lookup_cases:
  "((db_utxo_lookup s tx_hash tx_idx = Inl MissingUTXOError)
      = (0 \<le> tx_idx \<and> tx_idx \<le> 65535
         \<and> db_hash168 s tx_hash (le_bytes 2 tx_idx) = Inr (None, None)))
   \<and> (0 \<le> tx_idx \<and> tx_idx \<le> 65535
        \<and> db_hash168 s tx_hash (le_bytes 2 tx_idx) = Inr (Some h, Some t)
        \<and> (kv_get (db s) (prefix_u @ h @ le_bytes 2 tx_idx @ t) = None
             \<or> kv_get (db s) (prefix_u @ h @ le_bytes 2 tx_idx @ t) = Some []) \<longrightarrow>
        db_utxo_lookup s tx_hash tx_idx = Inl (DBError OneTableOnly))
   \<and> (0 \<le> tx_idx \<and> tx_idx \<le> 65535
        \<and> db_hash168 s tx_hash (le_bytes 2 tx_idx) = Inr (Some h, Some t)
        \<and> kv_get (db s) (prefix_u @ h @ le_bytes 2 tx_idx @ t) = Some v
        \<and> length v = 8 \<longrightarrow>
        db_utxo_lookup s tx_hash tx_idx = Inr (h, le_int v))"
  using db_utxo_lookup_missing_iff[of s tx_hash tx_idx]
    db_utxo_lookup_found(1)[where tx_idx = tx_idx and s = s and tx_hash = tx_hash
      and h = h and t = t]
    db_utxo_lookup_found(2)[where tx_idx = tx_idx and s = s and tx_hash = tx_hash
      and h = h and t = t and v = v]
  by blast

theorem db_utxo_lookup_cases_witness:
  "db_utxo_lookup indexed_state tx_9 0 = Inl MissingUTXOError
   \<and> db_utxo_lookup indexed_state tx_1 0 = Inl (DBError OneTableOnly)
   \<and> db_utxo_lookup indexed_state tx_2 0 = Inr (addr_b, 10000)"
proof -
  have a: "db_hash168 indexed_state tx_9 (le_bytes 2 0) = Inr (None, None)" by code_simp
  have b: "db_hash168 indexed_state tx_1 (le_bytes 2 0) = Inr (Some addr_a, Some [1, 0, 0, 0])"
    by code_simp
  have b2: "kv_get (db indexed_state) (prefix_u @ addr_a @ le_bytes 2 0 @ [1, 0, 0, 0]) = None"
    by code_simp
  have c: "db_hash168 indexed_state tx_2 (le_bytes 2 0) = Inr (Some addr_b, Some [2, 0, 0, 0])"
    by code_simp
  have c2: "kv_get (db indexed_state) (prefix_u @ addr_b @ le_bytes 2 0 @ [2, 0, 0, 0])
      = Some [0x10, 0x27, 0, 0, 0, 0, 0, 0]"
    by code_simp
  have c3: "length [0x10, 0x27, 0, 0, 0, 0, 0, 0 :: byte] = 8" by simp
  have c4: "le_int [0x10, 0x27, 0, 0, 0, 0, 0, 0] = 10000" by code_simp
  have r: "(0::int) \<le> 0 \<and> (0::int) \<le> 65535" by simp
  from db_utxo_lookup_cases[of indexed_state tx_9 0] a r
  have r1: "db_utxo_lookup indexed_state tx_9 0 = Inl MissingUTXOError" by blast
  from db_utxo_lookup_cases[of indexed_state tx_1 0 addr_a "[1, 0, 0, 0]"] b b2 r
  have r2: "db_utxo_lookup indexed_state tx_1 0 = Inl (DBError OneTableOnly)" by blast
  from db_utxo_lookup_cases[of indexed_state tx_2 0 addr_b "[2, 0, 0, 0]"
      "[0x10, 0x27, 0, 0, 0, 0, 0, 0]"] c c2 c3 r
  have "db_utxo_lookup indexed_state tx_2 0
      = Inr (addr_b, le_int [0x10, 0x27, 0, 0, 0, 0, 0, 0])" by blast
  with c4 have r3: "db_utxo_lookup indexed_state tx_2 0 = Inr (addr_b, 10000)" by simp
  from r1 r2 r3 show ?thesis by simp
qed

subsection \<open>C8: owner lookup under a shared prefix\<close>

text \<open>
  C8: among the owner-lookup entries under the prefix of the four-byte truncated hash and
  the packed index, \<open>db_hash168\<close> returns the first one, in key order, whose transaction
  number resolves to the full \<open>tx_hash\<close>, and \<open>(None, None)\<close> when none does; the
  entries are well formed (21-byte owners, keys that end in a transaction number whose
  hash can be resolved). Whatever the entries, a returned owner belongs to an entry under
  that prefix whose transaction number resolves to \<open>tx_hash\<close>.
\<close>

theorem db_hash168_first_match:
  "(list_all (\<lambda>kv. length (snd kv) = 21 \<and> 4 \<le> length (fst kv)
         \<and> \<not> isl (fs_tx_hash s (le_int (last_n 4 (fst kv)))))
       (kv_iterator (db s) (prefix_h @ take 4 tx_hash @ idx_packed)) \<longrightarrow>
     db_hash168 s tx_hash idx_packed
       = (case find (\<lambda>kv. fst (projr (fs_tx_hash s (le_int (last_n 4 (fst kv)))))
                           = Some tx_hash)
                 (kv_iterator (db s) (prefix_h @ take 4 tx_hash @ idx_packed)) of
            None \<Rightarrow> Inr (None, None)
          | Some kv \<Rightarrow> Inr (Some (snd kv), Some (last_n 4 (fst kv)))))
   \<and> (db_hash168 s tx_hash idx_packed = Inr (Some hash168, Some tx_num_packed) \<longrightarrow>
        (\<exists>k ht. (k, hash168) \<in> set (kv_iterator (db s) (prefix_h @ take 4 tx_hash @ idx_packed))
           \<and> tx_num_packed = last_n 4 k
           \<and> fs_tx_hash s (le_int tx_num_packed) = Inr (Some tx_hash, ht)))"
proof (intro conjI impI)
  assume "list_all (\<lambda>kv. length (snd kv) = 21 \<and> 4 \<le> length (fst kv)
         \<and> \<not> isl (fs_tx_hash s (le_int (last_n 4 (fst kv)))))
       (kv_iterator (db s) (prefix_h @ take 4 tx_hash @ idx_packed))"
  then show "db_hash168 s tx_hash idx_packed
       = (case find (\<lambda>kv. fst (projr (fs_tx_hash s (le_int (last_n 4 (fst kv)))))
                           = Some tx_hash)
                 (kv_iterator (db s) (prefix_h @ take 4 tx_hash @ idx_packed)) of
            None \<Rightarrow> Inr (None, None)
          | Some kv \<Rightarrow> Inr (Some (snd kv), Some (last_n 4 (fst kv))))"
    unfolding db_hash168_def by (rule db_hash168_loop_find)
next
  assume "db_hash168 s tx_hash idx_packed = Inr (Some hash168, Some tx_num_packed)"
  then have "db_hash168_loop s tx_hash
      (kv_iterator (db s) (prefix_h @ take 4 tx_hash @ idx_packed))
        = Inr (Some hash168, Some tx_num_packed)"
    by (simp add: db_hash168_def)
  from db_hash168_loop_result[OF this]
  show "\<exists>k ht. (k, hash168) \<in> set (kv_iterator (db s) (prefix_h @ take 4 tx_hash @ idx_packed))
           \<and> tx_num_packed = last_n 4 k
           \<and> fs_tx_hash s (le_int tx_num_packed) = Inr (Some tx_hash, ht)"
    by auto
qed

theorem db_hash168_first_match_witness:
  "db_hash168 indexed_state tx_2 [0, 0] = Inr (Some addr_b, Some [2, 0, 0, 0])
   \<and> db_hash168 indexed_state tx_9 [0, 0] = Inr (None, None)"
proof -
  have h2: "list_all (\<lambda>kv. length (snd kv) = 21 \<and> 4 \<le> length (fst kv)
         \<and> \<not> isl (fs_tx_hash indexed_state (le_int (last_n 4 (fst kv)))))
       (kv_iterator (db indexed_state) (prefix_h @ take 4 tx_2 @ [0, 0]))"
    by code_simp
  have f2: "(case find (\<lambda>kv. fst (projr (fs_tx_hash indexed_state (le_int (last_n 4 (fst kv)))))
                           = Some tx_2)
                 (kv_iterator (db indexed_state) (prefix_h @ take 4 tx_2 @ [0, 0])) of
            None \<Rightarrow> Inr (None, None)
          | Some kv \<Rightarrow> Inr (Some (snd kv), Some (last_n 4 (fst kv))))
       = (Inr (Some addr_b, Some [2, 0, 0, 0]) :: error + (bytes option \<times> bytes option))"
    by code_simp
  have h9: "list_all (\<lambda>kv. length (snd kv) = 21 \<and> 4 \<le> length (fst kv)
         \<and> \<not> isl (fs_tx_hash indexed_state (le_int (last_n 4 (fst kv)))))
       (kv_iterator (db indexed_state) (prefix_h @ take 4 tx_9 @ [0, 0]))"
    by code_simp
  have f9: "(case find (\<lambda>kv. fst (projr (fs_tx_hash indexed_state (le_int (last_n 4 (fst kv)))))
                           = Some tx_9)
                 (kv_iterator (db indexed_state) (prefix_h @ take 4 tx_9 @ [0, 0])) of
            None \<Rightarrow> Inr (None, None)
          | Some kv \<Rightarrow> Inr (Some (snd kv), Some (last_n 4 (fst kv))))
       = (Inr (None, None) :: error + (bytes option \<times> bytes option))"
    by code_simp
  from db_hash168_first_match[of indexed_state tx_2 "[0, 0]", THEN conjunct1, rule_format, OF h2]
  have r2: "db_hash168 indexed_state tx_2 [0, 0] = Inr (Some addr_b, Some [2, 0, 0, 0])"
    unfolding f2 .
  from db_hash168_first_match[of indexed_state tx_9 "[0, 0]", THEN conjunct1, rule_format, OF h9]
  have r9: "db_hash168 indexed_state tx_9 [0, 0] = Inr (None, None)"
    unfolding f9 .
  from r2 r9 show ?thesis by simp
qed

subsection \<open>C9: heights past the disk\<close>

text \<open>
  C9: when \<open>bisect_right\<close> puts \<open>tx_num\<close> past \<open>db_height\<close>, \<open>fs_tx_hash\<close> returns
  \<open>(None, height)\<close> and reads no file. \<open>get_history\<close> therefore ends without an error
  when every transaction number of the address is past the height or has its shard file
  on disk: it yields, in key order and up to the limit, the pair \<open>fs_tx_hash\<close> returns
  for each number.
\<close>

theorem fs_tx_hash_placeholder:
  "(db_height s < int (bisect_right (tx_counts s) tx_num) \<longrightarrow>
      fs_tx_hash s tx_num = Inr (None, int (bisect_right (tx_counts s) tx_num)))
   \<and> (list_all (\<lambda>kv. length (snd kv) mod 4 = 0
          \<and> list_all (\<lambda>n. db_height s < int (bisect_right (tx_counts s) n)
                          \<or> hash_files s (n * 32 div tx_hash_file_size) \<noteq> None)
               (chunks4 (snd kv)))
        (kv_iterator (db s) (prefix_H @ hash168))
      \<and> (limit = None \<or> (\<exists>l. limit = Some l \<and> 0 \<le> l)) \<longrightarrow>
      get_history s hash168 limit
        = ((case limit of
              None \<Rightarrow> map (\<lambda>n. projr (fs_tx_hash s n))
                        (concat (map (\<lambda>kv. chunks4 (snd kv))
                           (kv_iterator (db s) (prefix_H @ hash168))))
            | Some l \<Rightarrow> take (nat l)
                        (map (\<lambda>n. projr (fs_tx_hash s n))
                           (concat (map (\<lambda>kv. chunks4 (snd kv))
                              (kv_iterator (db s) (prefix_H @ hash168)))))),
           None))"
proof (intro conjI impI)
  assume "db_height s < int (bisect_right (tx_counts s) tx_num)"
  then show "fs_tx_hash s tx_num = Inr (None, int (bisect_right (tx_counts s) tx_num))"
    by (rule fs_tx_hash_past_height)
next
  assume a: "list_all (\<lambda>kv. length (snd kv) mod 4 = 0
          \<and> list_all (\<lambda>n. db_height s < int (bisect_right (tx_counts s) n)
                          \<or> hash_files s (n * 32 div tx_hash_file_size) \<noteq> None)
               (chunks4 (snd kv)))
        (kv_iterator (db s) (prefix_H @ hash168))
      \<and> (limit = None \<or> (\<exists>l. limit = Some l \<and> 0 \<le> l))"
  have ok: "list_all (\<lambda>kv. length (snd kv) mod 4 = 0
       \<and> list_all (\<lambda>n. \<not> isl (fs_tx_hash s n)) (chunks4 (snd kv)))
     (kv_iterator (db s) (prefix_H @ hash168))"
    unfolding list_all_iff
  proof (intro ballI conjI)
    fix kv assume kv: "kv \<in> set (kv_iterator (db s) (prefix_H @ hash168))"
    with a show "length (snd kv) mod 4 = 0" by (simp add: list_all_iff)
    fix n assume "n \<in> set (chunks4 (snd kv))"
    with a kv have "db_height s < int (bisect_right (tx_counts s) n)
        \<or> hash_files s (n * 32 div tx_hash_file_size) \<noteq> None"
      by (simp add: list_all_iff)
    then show "\<not> isl (fs_tx_hash s n)" by (rule fs_tx_hash_total)
  qed
  note k = history_keys_limited[OF ok]
  from a consider "limit = None" | l where "limit = Some l" "0 \<le> l" by blast
  then show "get_history s hash168 limit
        = ((case limit of
              None \<Rightarrow> map (\<lambda>n. projr (fs_tx_hash s n))
                        (concat (map (\<lambda>kv. chunks4 (snd kv))
                           (kv_iterator (db s) (prefix_H @ hash168))))
            | Some l \<Rightarrow> take (nat l)
                        (map (\<lambda>n. projr (fs_tx_hash s n))
                           (concat (map (\<lambda>kv. chunks4 (snd kv))
                              (kv_iterator (db s) (prefix_H @ hash168)))))),
           None)"
  proof cases
    case 1
    with k[of "- 1"] show ?thesis by (simp add: get_history_def resolve_limit_def)
  next
    case 2
    with k[of l] show ?thesis by (simp add: get_history_def resolve_limit_def)
  qed
qed

theorem fs_tx_hash_placeholder_witness:
  "fs_tx_hash indexed_state 7 = Inr (None, 2)
   \<and> get_history indexed_state addr_b None = ([(Some tx_2, 1), (None, 2)], None)"
proof -
  have b: "int (bisect_right (tx_counts indexed_state) 7) = 2" by code_simp
  have h: "db_height indexed_state < int (bisect_right (tx_counts indexed_state) 7)"
    by code_simp
  have l: "list_all (\<lambda>kv. length (snd kv) mod 4 = 0
          \<and> list_all (\<lambda>n. db_height indexed_state < int (bisect_right (tx_counts indexed_state) n)
                          \<or> hash_files indexed_state (n * 32 div tx_hash_file_size) \<noteq> None)
               (chunks4 (snd kv)))
        (kv_iterator (db indexed_state) (prefix_H @ addr_b))"
    by code_simp
  have m: "map (\<lambda>n. projr (fs_tx_hash indexed_state n))
             (concat (map (\<lambda>kv. chunks4 (snd kv))
                (kv_iterator (db indexed_state) (prefix_H @ addr_b))))
      = [(Some tx_2, 1), (None, 2)]"
    by code_simp
  note t = fs_tx_hash_placeholder[of indexed_state 7 addr_b None]
  from t h b have r1: "fs_tx_hash indexed_state 7 = Inr (None, 2)" by simp
  from t l have "get_history indexed_state addr_b None
      = (map (\<lambda>n. projr (fs_tx_hash indexed_state n))
             (concat (map (\<lambda>kv. chunks4 (snd kv))
                (kv_iterator (db indexed_state) (prefix_H @ addr_b)))), None)"
    by simp
  with m have r2: "get_history indexed_state addr_b None = ([(Some tx_2, 1), (None, 2)], None)"
    by simp
  from r1 r2 show ?thesis by simp
qed

subsection \<open>C10: output indices out of range\<close>

text \<open>
  C10: for an index below 0 or above 65535 \<open>get_utxo_hash168\<close> returns \<open>None\<close>, whatever
  the database holds. An index in range is packed into two bytes and passed to
  \<open>db_hash168\<close>, whose owner is returned.
\<close>

theorem get_utxo_hash168_index_range:
  "(index < 0 \<or> 65535 < index \<longrightarrow> get_utxo_hash168 s tx_hash index = Inr None)
   \<and> (0 \<le> index \<and> index \<le> 65535 \<longrightarrow>
        get_utxo_hash168 s tx_hash index
          = map_sum id fst (db_hash168 s tx_hash (le_bytes 2 index)))"
  using get_utxo_hash168_out_of_range[of index s tx_hash]
    get_utxo_hash168_in_range[of index s tx_hash]
  by blast

theorem get_utxo_hash168_index_range_witness:
  "get_utxo_hash168 indexed_state tx_2 65536 = Inr None
   \<and> get_utxo_hash168 indexed_state tx_2 (- 1) = Inr None
   \<and> get_utxo_hash168 indexed_state tx_2 0 = Inr (Some addr_b)"
proof -
  have c: "db_hash168 indexed_state tx_2 (le_bytes 2 0) = Inr (Some addr_b, Some [2, 0, 0, 0])"
    by code_simp
  from get_utxo_hash168_index_range[of 65536 indexed_state tx_2]
  have r1: "get_utxo_hash168 indexed_state tx_2 65536 = Inr None" by simp
  from get_utxo_hash168_index_range[of "- 1" indexed_state tx_2]
  have r2: "get_utxo_hash168 indexed_state tx_2 (- 1) = Inr None" by simp
  from get_utxo_hash168_index_range[of 0 indexed_state tx_2] c
  have r3: "get_utxo_hash168 indexed_state tx_2 0 = Inr (Some addr_b)" by simp
  from r1 r2 r3 show ?thesis by simp
qed

end
